theory Spec2Isabelle
  imports Complex_Main "HOL-Library.Char_ord" "HOL-Library.List_Lexorder"
begin

section \<open>Alerting function (azure-function/__init__.py)\<close>

text \<open>
  The alerting function reads check results from the log store, decides per url whether
  an alert is due, keeps a cooldown record per url in a blob container and posts one
  message per alert to a webhook.

  Conventions of the model.
  \<^item> A log record is a dict with the keys \<open>url\<close>, \<open>name\<close>, \<open>timestamp\<close>, \<open>status\<close>, all
    strings: this is what both producers in monitor.py write. Strings are byte lists
    (UTF-8), whose lexicographic order agrees with Python's order on \<open>str\<close>.
  \<^item> A \<open>datetime\<close> is an integer count of microseconds since 0001-01-01T00:00:00 UTC, its
    first value; its last value is 9999-12-31T23:59:59.999999. A \<open>timedelta\<close> is a count
    of microseconds of at most 999999999 days in either direction. The arithmetic raises
    \<open>OverflowError\<close> outside these ranges, as Python's does.
  \<^item> The outside world is a record: the blob container, the readings the clock will give,
    which storage calls will fail, what the webhook will answer, and the trace of the
    effects performed so far. Calls to \<open>logging\<close> are not effects of the model.
\<close>

subsection \<open>Data\<close>

record log_entry =
  l_url :: string
  l_name :: string
  l_timestamp :: string
  l_status :: string

record alert =
  a_url :: string
  a_name :: string
  consecutive_failures :: nat
  last_status :: string
  last_check :: string

text \<open>The module constants, read from the process environment at import time.\<close>

record settings =
  CONSECUTIVE_FAILURES_THRESHOLD :: int
  DISCORD_WEBHOOK_URL :: string
  blob_service_client :: bool \<comment> \<open>true iff \<open>STORAGE_CONNECTION_STRING\<close> is non-empty\<close>
  ALERT_COOLDOWN_MINUTES :: int

datatype exn =
    IndexError
  | StorageError \<comment> \<open>any exception of the storage SDK\<close>
  | OverflowError
  | OtherException string \<comment> \<open>any other subclass of \<open>Exception\<close>, with its message\<close>

text \<open>What an HTTP call does: a response, a \<open>requests.RequestException\<close>, or another exception.\<close>

datatype 'a outcome = Response 'a | RequestException string | Unexpected string

text \<open>The embed posted to the webhook.\<close>

record embed_field =
  f_name :: string
  f_value :: string
  f_inline :: bool

record message =
  m_title :: string
  m_description :: string
  m_color :: nat
  m_fields :: "embed_field list"

datatype event =
    BlobUpload string int \<comment> \<open>blob name, last-modified time given by the store\<close>
  | BlobDelete string
  | HttpPost string message \<comment> \<open>webhook url, payload\<close>
  | Sleep nat

record aworld =
  blobs :: "string \<rightharpoonup> int" \<comment> \<open>container \<open>alert-cooldown\<close>: blob name to last-modified time\<close>
  clock :: "nat \<Rightarrow> int" \<comment> \<open>the k-th reading of the clock\<close>
  clock_reads :: nat
  blob_fault :: "nat \<Rightarrow> bool" \<comment> \<open>whether the k-th call of the storage SDK raises\<close>
  blob_calls :: nat
  post_result :: "nat \<Rightarrow> nat outcome" \<comment> \<open>what the k-th POST does; a response carries its status code\<close>
  posts :: nat
  trace :: "event list"

subsection \<open>The environment's primitives\<close>

definition now :: "aworld \<Rightarrow> int \<times> aworld" where
  "now w = (clock w (clock_reads w), w\<lparr>clock_reads := Suc (clock_reads w)\<rparr>)"

definition blob_call :: "aworld \<Rightarrow> bool \<times> aworld" where
  "blob_call w = (blob_fault w (blob_calls w), w\<lparr>blob_calls := Suc (blob_calls w)\<rparr>)"

definition blob_exists :: "string \<Rightarrow> aworld \<Rightarrow> (exn + bool) \<times> aworld" where
  "blob_exists n w =
     (case blob_call w of
        (True, w1) \<Rightarrow> (Inl StorageError, w1)
      | (False, w1) \<Rightarrow> (Inr (blobs w1 n \<noteq> None), w1))"

definition get_blob_properties :: "string \<Rightarrow> aworld \<Rightarrow> (exn + int) \<times> aworld" where
  "get_blob_properties n w =
     (case blob_call w of
        (True, w1) \<Rightarrow> (Inl StorageError, w1)
      | (False, w1) \<Rightarrow>
          (case blobs w1 n of None \<Rightarrow> (Inl StorageError, w1) | Some t \<Rightarrow> (Inr t, w1)))"

definition delete_blob :: "string \<Rightarrow> aworld \<Rightarrow> (exn + unit) \<times> aworld" where
  "delete_blob n w =
     (case blob_call w of
        (True, w1) \<Rightarrow> (Inl StorageError, w1)
      | (False, w1) \<Rightarrow>
          (case blobs w1 n of
             None \<Rightarrow> (Inl StorageError, w1)
           | Some t \<Rightarrow> (Inr (), w1\<lparr>blobs := (blobs w1)(n := None),
                                     trace := trace w1 @ [BlobDelete n]\<rparr>)))"

text \<open>\<open>upload_blob(data, overwrite=True)\<close>: the store stamps the blob with its current time.\<close>

definition upload_blob :: "string \<Rightarrow> aworld \<Rightarrow> (exn + unit) \<times> aworld" where
  "upload_blob n w =
     (case blob_call w of
        (True, w1) \<Rightarrow> (Inl StorageError, w1)
      | (False, w1) \<Rightarrow>
          (case now w1 of
             (t, w2) \<Rightarrow> (Inr (), w2\<lparr>blobs := (blobs w2)(n \<mapsto> t),
                                     trace := trace w2 @ [BlobUpload n t]\<rparr>)))"

definition http_post :: "string \<Rightarrow> message \<Rightarrow> aworld \<Rightarrow> nat outcome \<times> aworld" where
  "http_post u m w =
     (post_result w (posts w),
      w\<lparr>posts := Suc (posts w), trace := trace w @ [HttpPost u m]\<rparr>)"

definition sleep :: "nat \<Rightarrow> aworld \<Rightarrow> aworld" where
  "sleep n w = w\<lparr>trace := trace w @ [Sleep n]\<rparr>"

subsection \<open>analyze_logs: grouping, sorting, counting\<close>

text \<open>
  \<open>url_logs\<close> is a dict in insertion order, here an association list with distinct keys.
  \<open>dict_append url log d\<close> is the loop body
  \<^verbatim>\<open>if url not in url_logs: url_logs[url] = []\<close>; \<^verbatim>\<open>url_logs[url].append(log)\<close>.
\<close>

type_synonym url_logs = "(string \<times> log_entry list) list"

fun dict_append :: "string \<Rightarrow> log_entry \<Rightarrow> url_logs \<Rightarrow> url_logs" where
  "dict_append u l [] = [(u, [l])]"
| "dict_append u l ((k, ls) # d) =
     (if k = u then (k, ls @ [l]) # d else (k, ls) # dict_append u l d)"

fun group_logs :: "log_entry list \<Rightarrow> url_logs \<Rightarrow> url_logs" where
  "group_logs [] d = d"
| "group_logs (l # ls) d = group_logs ls (dict_append (l_url l) l d)"

text \<open>
  The counting loop over \<open>reversed(url_log_list)\<close>: one more for each \<open>DOWN\<close>, \<open>break\<close> at
  the first other status.
\<close>

fun count_failures :: "log_entry list \<Rightarrow> nat \<Rightarrow> nat" where
  "count_failures [] c = c"
| "count_failures (l # ls) c =
     (if l_status l = ''DOWN'' then count_failures ls (c + 1) else c)"

text \<open>\<open>list.sort(key=...)\<close> is a stable sort, as \<^const>\<open>sort_key\<close> is.\<close>

definition sorted_logs :: "log_entry list \<Rightarrow> log_entry list" where
  "sorted_logs ls = sort_key l_timestamp ls"

subsection \<open>The cooldown store\<close>

text \<open>Python's \<open>str.replace(old, new)\<close> for a non-empty \<open>old\<close>: leftmost, non-overlapping.\<close>

function str_replace :: "string \<Rightarrow> string \<Rightarrow> string \<Rightarrow> string" where
  "str_replace old new s =
     (if old = [] \<or> s = [] then s
      else if take (length old) s = old
           then new @ str_replace old new (drop (length old) s)
           else hd s # str_replace old new (tl s))"
  by pat_completeness auto
termination
  by (relation "measure (\<lambda>(old, new, s). length s)") (auto simp: neq_Nil_conv)

definition blob_name :: "string \<Rightarrow> string" where
  "blob_name url = ''cooldown_'' @ str_replace ''/'' ''_'' (str_replace ''://'' ''_'' url)"

definition microseconds_of_minutes :: "int \<Rightarrow> int" where
  "microseconds_of_minutes m = m * 60000000"

text \<open>
  \<open>datetime.timedelta(minutes=m)\<close> for an \<open>int\<close>: the number of whole days, \<open>m // 1440\<close>, must
  have magnitude at most 999999999.
\<close>

definition timedelta_minutes :: "int \<Rightarrow> exn + int" where
  "timedelta_minutes m =
     (if \<bar>m div 1440\<bar> > 999999999 then Inl OverflowError
      else Inr (microseconds_of_minutes m))"

text \<open>The last \<open>datetime\<close>: 3652059 days of 86400 seconds, less one microsecond.\<close>

definition datetime_max :: int where
  "datetime_max = 315537897599999999"

text \<open>\<open>datetime + timedelta\<close>: the result must be a \<open>datetime\<close>.\<close>

definition datetime_add :: "int \<Rightarrow> int \<Rightarrow> exn + int" where
  "datetime_add t d =
     (if 0 \<le> t + d \<and> t + d \<le> datetime_max then Inr (t + d) else Inl OverflowError)"

text \<open>
  \<open>is_in_cooldown\<close>: every exception inside the \<open>try\<close> block, of the storage calls and of
  the date arithmetic, ends in \<^verbatim>\<open>return False\<close>.
\<close>

definition is_in_cooldown :: "settings \<Rightarrow> string \<Rightarrow> aworld \<Rightarrow> bool \<times> aworld" where
  "is_in_cooldown s url w =
     (if \<not> blob_service_client s then (False, w)
      else
        (case blob_exists (blob_name url) w of
           (Inl e, w1) \<Rightarrow> (False, w1)
         | (Inr False, w1) \<Rightarrow> (False, w1)
         | (Inr True, w1) \<Rightarrow>
             (case get_blob_properties (blob_name url) w1 of
                (Inl e, w2) \<Rightarrow> (False, w2)
              | (Inr last_modified, w2) \<Rightarrow>
                  (case timedelta_minutes (ALERT_COOLDOWN_MINUTES s) of
                     Inl e \<Rightarrow> (False, w2)
                   | Inr delta \<Rightarrow>
                       (case datetime_add last_modified delta of
                          Inl e \<Rightarrow> (False, w2)
                        | Inr cooldown_end \<Rightarrow>
                            (case now w2 of
                               (t, w3) \<Rightarrow>
                                 if t < cooldown_end then (True, w3)
                                 else (False, snd (delete_blob (blob_name url) w3))))))))"

definition set_cooldown :: "settings \<Rightarrow> string \<Rightarrow> aworld \<Rightarrow> aworld" where
  "set_cooldown s url w =
     (if \<not> blob_service_client s then w
      else snd (upload_blob (blob_name url) w))"

subsection \<open>analyze_logs: the decision per url\<close>

text \<open>
  One pass of the loop over \<open>url_logs.items()\<close>. The cooldown is asked only when the
  threshold is reached (\<open>and\<close> is short-circuit); \<open>url_log_list[0]\<close> and
  \<open>url_log_list[-1]\<close> raise \<open>IndexError\<close> on an empty list. The result is the list of
  alerts appended in this pass (none or one).
\<close>

definition analyze_group ::
  "settings \<Rightarrow> string \<times> log_entry list \<Rightarrow> aworld \<Rightarrow> (exn + alert list) \<times> aworld" where
  "analyze_group s g w =
     (case g of (url, url_log_list) \<Rightarrow>
        (let sl = sorted_logs url_log_list;
             n = count_failures (rev sl) 0
         in if CONSECUTIVE_FAILURES_THRESHOLD s \<le> int n then
              (case is_in_cooldown s url w of
                 (True, w1) \<Rightarrow> (Inr [], w1)
               | (False, w1) \<Rightarrow>
                   (case sl of
                      [] \<Rightarrow> (Inl IndexError, w1)
                    | first # _ \<Rightarrow>
                        (Inr [\<lparr>a_url = url, a_name = l_name first,
                               consecutive_failures = n,
                               last_status = l_status (last sl),
                               last_check = l_timestamp (last sl)\<rparr>],
                         set_cooldown s url w1)))
            else (Inr [], w)))"

fun analyze_groups ::
  "settings \<Rightarrow> url_logs \<Rightarrow> aworld \<Rightarrow> (exn + alert list) \<times> aworld" where
  "analyze_groups s [] w = (Inr [], w)"
| "analyze_groups s (g # gs) w =
     (case analyze_group s g w of
        (Inl e, w1) \<Rightarrow> (Inl e, w1)
      | (Inr new, w1) \<Rightarrow>
          (case analyze_groups s gs w1 of
             (Inl e, w2) \<Rightarrow> (Inl e, w2)
           | (Inr rest, w2) \<Rightarrow> (Inr (new @ rest), w2)))"

definition analyze_logs ::
  "settings \<Rightarrow> log_entry list \<Rightarrow> aworld \<Rightarrow> (exn + alert list) \<times> aworld" where
  "analyze_logs s logs w = analyze_groups s (group_logs logs []) w"

subsection \<open>send_alerts\<close>

text \<open>Decimal digits of a number, as an f-string prints an \<open>int\<close>.\<close>

fun string_of_nat :: "nat \<Rightarrow> string" where
  "string_of_nat n =
     (if n < 10 then [char_of (48 + n)]
      else string_of_nat (n div 10) @ [char_of (48 + n mod 10)])"

declare string_of_nat.simps [simp del]

text \<open>The title starts with U+1F6A8, four bytes in UTF-8.\<close>

definition alert_title :: string where
  "alert_title = [char_of (240::nat), char_of (159::nat), char_of (154::nat), char_of (168::nat)]
                 @ '' URL Monitoring Alert''"

definition format_alert :: "alert \<Rightarrow> message" where
  "format_alert a =
     \<lparr>m_title = alert_title,
      m_description = ''URL has been down for '' @ string_of_nat (consecutive_failures a)
                      @ '' consecutive checks'',
      m_color = 16711680,
      m_fields =
        [\<lparr>f_name = ''URL Name'', f_value = a_name a, f_inline = True\<rparr>,
         \<lparr>f_name = ''URL'', f_value = a_url a, f_inline = True\<rparr>,
         \<lparr>f_name = ''Last Check'', f_value = last_check a, f_inline = True\<rparr>]\<rparr>"

text \<open>
  \<open>raise_for_status\<close> raises \<open>HTTPError\<close>, a \<open>RequestException\<close>, for a status code from
  400 to 599. A \<open>RequestException\<close> is caught inside the loop and the loop goes on, without
  the pause; any other exception leaves the loop and the function.
\<close>

definition raise_for_status :: "nat \<Rightarrow> bool" where
  "raise_for_status code = (400 \<le> code \<and> code < 600)"

fun send_loop :: "string \<Rightarrow> alert list \<Rightarrow> aworld \<Rightarrow> exn option \<times> aworld" where
  "send_loop u [] w = (None, w)"
| "send_loop u (a # as) w =
     (case http_post u (format_alert a) w of
        (Response code, w1) \<Rightarrow>
          if raise_for_status code then send_loop u as w1
          else send_loop u as (sleep 1 w1)
      | (RequestException msg, w1) \<Rightarrow> send_loop u as w1
      | (Unexpected msg, w1) \<Rightarrow> (Some (OtherException msg), w1))"

definition send_alerts :: "settings \<Rightarrow> alert list \<Rightarrow> aworld \<Rightarrow> exn option \<times> aworld" where
  "send_alerts s alerts w =
     (if DISCORD_WEBHOOK_URL s = [] then (None, w)
      else send_loop (DISCORD_WEBHOOK_URL s) alerts w)"

subsection \<open>main\<close>



section \<open>Monitoring agent (monitoring-agent/monitor.py): the check and retry engine\<close>

text \<open>
  \<open>URLMonitor\<close> holds a configuration that passed \<open>validate_config\<close>, so each target has
  the keys \<open>name\<close>, \<open>url\<close>, \<open>expected_status\<close>, and the monitoring settings have their
  types. The engine is modelled on that typed view: \<open>max_retries\<close> is a Python \<open>int\<close> of
  either sign, delays and timeouts are numbers (finite floats are rationals). The
  elapsed time of a request (two readings of \<open>time.time()\<close>, scaled and rounded) is given
  by the world with the response. A raised exception is carried as its message \<open>str(e)\<close>.
\<close>

record target =
  t_name :: string
  t_url :: string
  expected_status :: int
  t_headers :: "(string \<times> string) list" \<comment> \<open>\<open>url_config.get('headers', {})\<close>\<close>

record monitoring =
  interval_minutes :: rat
  timeout_seconds :: rat
  max_retries :: int
  retry_delay_seconds :: rat
  urls :: "target list"

record check_result =
  r_url :: string
  r_name :: string
  r_timestamp :: string
  r_status :: string
  response_time :: "rat option"
  status_code :: "int option"
  error :: "string option"

datatype mevent =
    HttpGet string rat "(string \<times> string) list" \<comment> \<open>url, timeout, headers\<close>
  | TimeSleep rat

record mworld =
  get_result :: "nat \<Rightarrow> (int \<times> rat) outcome"
    \<comment> \<open>what the k-th GET does; a response carries status code and elapsed milliseconds\<close>
  gets :: nat
  utc :: "nat \<Rightarrow> string" \<comment> \<open>the k-th value of \<open>datetime.utcnow().isoformat()\<close>\<close>
  utc_reads :: nat
  sleep_overflow :: "rat \<Rightarrow> string option"
    \<comment> \<open>the message of the \<open>OverflowError\<close> of \<open>time.sleep\<close> for a delay outside the
        platform's time type, \<open>None\<close> for a delay inside it\<close>
  mtrace :: "mevent list"

definition utcnow :: "mworld \<Rightarrow> string \<times> mworld" where
  "utcnow w = (utc w (utc_reads w), w\<lparr>utc_reads := Suc (utc_reads w)\<rparr>)"

definition session_get :: "target \<Rightarrow> rat \<Rightarrow> mworld \<Rightarrow> (int \<times> rat) outcome \<times> mworld" where
  "session_get t timeout w =
     (get_result w (gets w),
      w\<lparr>gets := Suc (gets w), mtrace := mtrace w @ [HttpGet (t_url t) timeout (t_headers t)]\<rparr>)"

text \<open>
  \<open>time.sleep\<close> converts its argument to the time type of the platform and raises
  \<open>OverflowError\<close> when it does not fit (which delays fit depends on the interpreter and the
  platform: the world says); then it raises \<open>ValueError\<close> for a negative argument.
\<close>

definition time_sleep :: "rat \<Rightarrow> mworld \<Rightarrow> string option \<times> mworld" where
  "time_sleep d w =
     (case sleep_overflow w d of
        Some e \<Rightarrow> (Some e, w)
      | None \<Rightarrow>
          if d < 0 then (Some ''sleep length must be non-negative'', w)
          else (None, w\<lparr>mtrace := mtrace w @ [TimeSleep d]\<rparr>))"

text \<open>
  The loop \<^verbatim>\<open>for attempt in range(max_retries)\<close> from the attempt number on. A response
  updates the result and ends the loop when the status is \<open>UP\<close>; a \<open>RequestException\<close> is
  recorded, followed by a sleep unless this was the last attempt; any other exception,
  and one raised by the sleep, leaves the function.
\<close>

function attempts ::
  "monitoring \<Rightarrow> target \<Rightarrow> int \<Rightarrow> check_result \<Rightarrow> mworld \<Rightarrow> (string + check_result) \<times> mworld"
where
  "attempts c t attempt result w =
     (if \<not> attempt < max_retries c then (Inr result, w)
      else
        (case session_get t (timeout_seconds c) w of
           (Response (code, ms), w1) \<Rightarrow>
             (let result' = result\<lparr>r_status := (if code = expected_status t then ''UP'' else ''DOWN''),
                                   response_time := Some ms,
                                   status_code := Some code\<rparr>
              in if r_status result' = ''UP'' then (Inr result', w1)
                 else attempts c t (attempt + 1) result' w1)
         | (RequestException msg, w1) \<Rightarrow>
             (let result' = result\<lparr>error := Some msg\<rparr>
              in if attempt < max_retries c - 1 then
                   (case time_sleep (retry_delay_seconds c) w1 of
                      (Some e, w2) \<Rightarrow> (Inl e, w2)
                    | (None, w2) \<Rightarrow> attempts c t (attempt + 1) result' w2)
                 else attempts c t (attempt + 1) result' w1)
         | (Unexpected msg, w1) \<Rightarrow> (Inl msg, w1)))"
  by pat_completeness auto
termination
  by (relation "measure (\<lambda>(c, t, attempt, result, w). nat (max_retries c - attempt))") auto

declare attempts.simps [simp del]

definition check_url :: "monitoring \<Rightarrow> target \<Rightarrow> mworld \<Rightarrow> (string + check_result) \<times> mworld" where
  "check_url c t w =
     (case utcnow w of
        (ts, w0) \<Rightarrow>
          attempts c t 0
            \<lparr>r_url = t_url t, r_name = t_name t, r_timestamp = ts, r_status = ''DOWN'',
             response_time = None, status_code = None, error = None\<rparr> w0)"



section \<open>Monitoring agent: ConfigValidator\<close>

text \<open>
  The configuration is what \<open>json.load\<close> returns. An object is a Python dict, here an
  association list read with \<^const>\<open>map_of\<close>. Finite floats are rationals. A Python
  \<open>bool\<close> is an \<open>int\<close> for \<open>isinstance\<close>.
\<close>

datatype json =
    JNull
  | JBool bool
  | JInt int
  | JFloat rat
  | JStr string
  | JList "json list"
  | JObj "(string \<times> json) list"

datatype pyerr = AttributeError | TypeError | KeyError

text \<open>\<open>x.get(k, default)\<close>: only a dict has the method.\<close>

definition py_get :: "json \<Rightarrow> string \<Rightarrow> json \<Rightarrow> pyerr + json" where
  "py_get x k dflt =
     (case x of
        JObj kvs \<Rightarrow> (case map_of kvs k of None \<Rightarrow> Inr dflt | Some v \<Rightarrow> Inr v)
      | _ \<Rightarrow> Inl AttributeError)"

text \<open>\<open>x[k]\<close> for a string \<open>k\<close>.\<close>

definition py_getitem :: "json \<Rightarrow> string \<Rightarrow> pyerr + json" where
  "py_getitem x k =
     (case x of
        JObj kvs \<Rightarrow> (case map_of kvs k of None \<Rightarrow> Inl KeyError | Some v \<Rightarrow> Inr v)
      | _ \<Rightarrow> Inl TypeError)"

fun is_infix :: "string \<Rightarrow> string \<Rightarrow> bool" where
  "is_infix xs [] = (xs = [])"
| "is_infix xs (y # ys) = (take (length xs) (y # ys) = xs \<or> is_infix xs ys)"

text \<open>
  \<open>k in x\<close> for a string \<open>k\<close>: a key of a dict, an element of a list, a substring of a
  string; \<open>TypeError\<close> on a number, a boolean or \<open>None\<close>.
\<close>

definition py_contains :: "string \<Rightarrow> json \<Rightarrow> pyerr + bool" where
  "py_contains k x =
     (case x of
        JObj kvs \<Rightarrow> Inr (map_of kvs k \<noteq> None)
      | JList vs \<Rightarrow> Inr (JStr k \<in> set vs)
      | JStr s \<Rightarrow> Inr (is_infix k s)
      | _ \<Rightarrow> Inl TypeError)"

definition is_int :: "json \<Rightarrow> bool" where \<comment> \<open>\<open>isinstance(v, int)\<close>\<close>
  "is_int v = (case v of JInt n \<Rightarrow> True | JBool b \<Rightarrow> True | _ \<Rightarrow> False)"

definition is_number :: "json \<Rightarrow> bool" where \<comment> \<open>\<open>isinstance(v, (int, float))\<close>\<close>
  "is_number v = (case v of JInt n \<Rightarrow> True | JBool b \<Rightarrow> True | JFloat r \<Rightarrow> True | _ \<Rightarrow> False)"

definition is_list :: "json \<Rightarrow> bool" where \<comment> \<open>\<open>isinstance(v, list)\<close>\<close>
  "is_list v = (case v of JList vs \<Rightarrow> True | _ \<Rightarrow> False)"

text \<open>\<open>n > v\<close> for an \<open>int\<close> \<open>n\<close>: defined against numbers, \<open>TypeError\<close> otherwise.\<close>

definition py_int_gt :: "int \<Rightarrow> json \<Rightarrow> pyerr + bool" where
  "py_int_gt n v =
     (case v of
        JInt m \<Rightarrow> Inr (n > m)
      | JBool b \<Rightarrow> Inr (n > (if b then 1 else 0))
      | JFloat r \<Rightarrow> Inr (of_int n > r)
      | _ \<Rightarrow> Inl TypeError)"

text \<open>
  \<open>urllib.parse.urlparse\<close> is a parameter: a function from a string to the \<open>scheme\<close> and
  \<open>netloc\<close> of the parse result, or to an exception. On a value that is not a string
  \<open>urlparse\<close> either raises, which \<open>validate_url\<close> catches, or parses the empty byte
  string; \<open>validate_url\<close> is false in both cases.
\<close>

type_synonym urlparser = "string \<Rightarrow> pyerr + (string \<times> string)"

definition validate_url :: "urlparser \<Rightarrow> json \<Rightarrow> bool" where
  "validate_url urlparse url =
     (case url of
        JStr u \<Rightarrow>
          (case urlparse u of
             Inl e \<Rightarrow> False
           | Inr (scheme, netloc) \<Rightarrow> (scheme \<noteq> [] \<and> netloc \<noteq> []) \<and> scheme \<in> set [''https''])
      | _ \<Rightarrow> False)"

text \<open>
  A chain \<^verbatim>\<open>not c1 or not c2 or ...\<close> evaluates its conditions in order and stops at the
  first that fails or raises; so does \<open>all(...)\<close> over a generator.
\<close>

fun all_hold :: "(pyerr + bool) list \<Rightarrow> pyerr + bool" where
  "all_hold [] = Inr True"
| "all_hold (Inl e # cs) = Inl e"
| "all_hold (Inr False # cs) = Inr False"
| "all_hold (Inr True # cs) = all_hold cs"

definition isinstance :: "(json \<Rightarrow> bool) \<Rightarrow> pyerr + json \<Rightarrow> pyerr + bool" where
  "isinstance ty v = (case v of Inl e \<Rightarrow> Inl e | Inr x \<Rightarrow> Inr (ty x))"

text \<open>The loop over \<open>urls\<close>.\<close>

fun validate_urls :: "urlparser \<Rightarrow> json list \<Rightarrow> pyerr + bool" where
  "validate_urls urlparse [] = Inr True"
| "validate_urls urlparse (url_config # rest) =
     (case all_hold (map (\<lambda>k. py_contains k url_config) [''name'', ''url'', ''expected_status'']) of
        Inl e \<Rightarrow> Inl e
      | Inr False \<Rightarrow> Inr False
      | Inr True \<Rightarrow>
          (case py_getitem url_config ''url'' of
             Inl e \<Rightarrow> Inl e
           | Inr u \<Rightarrow>
               if \<not> validate_url urlparse u then Inr False
               else validate_urls urlparse rest))"

text \<open>The body of the \<open>try\<close> block of \<open>validate_config\<close>.\<close>

definition validate_config_try :: "urlparser \<Rightarrow> json \<Rightarrow> pyerr + bool" where
  "validate_config_try urlparse config =
     (case py_get config ''monitoring'' (JObj []) of
        Inl e \<Rightarrow> Inl e
      | Inr monitoring \<Rightarrow>
     (case py_get config ''security'' (JObj []) of
        Inl e \<Rightarrow> Inl e
      | Inr security \<Rightarrow>
     (case all_hold
             [isinstance is_number (py_get monitoring ''interval_minutes'' JNull),
              isinstance is_number (py_get monitoring ''timeout_seconds'' JNull),
              isinstance is_int (py_get monitoring ''max_retries'' JNull),
              isinstance is_number (py_get monitoring ''retry_delay_seconds'' JNull)] of
        Inl e \<Rightarrow> Inl e
      | Inr False \<Rightarrow> Inr False
      | Inr True \<Rightarrow>
     (case all_hold
             [isinstance is_int (py_get security ''max_urls'' JNull),
              isinstance is_list (py_get security ''allowed_schemes'' JNull),
              isinstance is_number (py_get security ''max_timeout_seconds'' JNull),
              isinstance is_number (py_get security ''max_interval_minutes'' JNull)] of
        Inl e \<Rightarrow> Inl e
      | Inr False \<Rightarrow> Inr False
      | Inr True \<Rightarrow>
     (case py_get monitoring ''urls'' (JList []) of
        Inl e \<Rightarrow> Inl e
      | Inr url_list \<Rightarrow>
          (case url_list of
             JList us \<Rightarrow>
               (case py_getitem security ''max_urls'' of
                  Inl e \<Rightarrow> Inl e
                | Inr max_urls \<Rightarrow>
                    (case py_int_gt (int (length us)) max_urls of
                       Inl e \<Rightarrow> Inl e
                     | Inr True \<Rightarrow> Inr False
                     | Inr False \<Rightarrow> validate_urls urlparse us))
           | _ \<Rightarrow> Inr False))))))"

text \<open>\<^verbatim>\<open>except Exception: return False\<close>\<close>

definition validate_config :: "urlparser \<Rightarrow> json \<Rightarrow> bool" where
  "validate_config urlparse config =
     (case validate_config_try urlparse config of Inl e \<Rightarrow> False | Inr b \<Rightarrow> b)"

section \<open>Notions used to state the properties\<close>

subsection \<open>Alerting function\<close>

text \<open>The records of one url, in the order of the input.\<close>

definition url_group :: "string \<Rightarrow> log_entry list \<Rightarrow> log_entry list" where
  "url_group u logs = filter (\<lambda>l. l_url l = u) logs"

text \<open>
  The number of trailing \<open>DOWN\<close> records of a group: sort by timestamp ascending, go from
  the most recent record backwards, stop at the first status that is not \<open>DOWN\<close>.
\<close>

definition trailing_down :: "log_entry list \<Rightarrow> nat" where
  "trailing_down ls =
     length (takeWhile (\<lambda>l. l_status l = ''DOWN'') (rev (sort_key l_timestamp ls)))"

definition entries :: "url_logs \<Rightarrow> string \<Rightarrow> log_entry list" where
  "entries d k = (case map_of d k of None \<Rightarrow> [] | Some xs \<Rightarrow> xs)"

text \<open>The alert that \<open>analyze_logs\<close> builds for a url from its group.\<close>

definition alert_of :: "string \<Rightarrow> log_entry list \<Rightarrow> alert" where
  "alert_of u g =
     \<lparr>a_url = u, a_name = l_name (hd (sorted_logs g)),
      consecutive_failures = trailing_down g,
      last_status = l_status (last (sorted_logs g)),
      last_check = l_timestamp (last (sorted_logs g))\<rparr>"

definition due :: "settings \<Rightarrow> string \<Rightarrow> log_entry list \<Rightarrow> aworld \<Rightarrow> bool" where
  "due s u g w \<longleftrightarrow>
     CONSECUTIVE_FAILURES_THRESHOLD s \<le> int (trailing_down g) \<and> \<not> fst (is_in_cooldown s u w)"

text \<open>
  The world in which the loop of \<open>analyze_logs\<close> reaches the url \<open>u\<close>: the urls before it
  have been dealt with. A url is suppressed when \<open>is_in_cooldown\<close> answers true there.
\<close>

definition world_at :: "settings \<Rightarrow> url_logs \<Rightarrow> string \<Rightarrow> aworld \<Rightarrow> aworld" where
  "world_at s gs u w = snd (analyze_groups s (takeWhile (\<lambda>g. fst g \<noteq> u) gs) w)"

definition suppressed_at :: "settings \<Rightarrow> log_entry list \<Rightarrow> string \<Rightarrow> aworld \<Rightarrow> bool" where
  "suppressed_at s logs u w = fst (is_in_cooldown s u (world_at s (group_logs logs []) u w))"

text \<open>
  The cooldown that starts at \<open>t\<close> has an end: the window is a \<open>timedelta\<close> and the sum is a
  \<open>datetime\<close>.
\<close>

definition cooldown_end_exists :: "settings \<Rightarrow> int \<Rightarrow> bool" where
  "cooldown_end_exists s t \<longleftrightarrow>
     \<bar>ALERT_COOLDOWN_MINUTES s div 1440\<bar> \<le> 999999999 \<and>
     0 \<le> t + microseconds_of_minutes (ALERT_COOLDOWN_MINUTES s) \<and>
     t + microseconds_of_minutes (ALERT_COOLDOWN_MINUTES s) \<le> datetime_max"

text \<open>Reading a trace: the POSTs, the writes to the store, the store they leave.\<close>

fun posted :: "event list \<Rightarrow> (string \<times> message) list" where
  "posted [] = []"
| "posted (HttpPost u m # es) = (u, m) # posted es"
| "posted (e # es) = posted es"

fun is_store_event :: "event \<Rightarrow> bool" where
  "is_store_event (BlobUpload n t) = True"
| "is_store_event (BlobDelete n) = True"
| "is_store_event e = False"




subsection \<open>Monitoring agent\<close>

fun is_get :: "mevent \<Rightarrow> bool" where
  "is_get (HttpGet u t h) = True"
| "is_get e = False"

fun sleeps :: "mevent list \<Rightarrow> rat list" where
  "sleeps [] = []"
| "sleeps (TimeSleep d # es) = d # sleeps es"
| "sleeps (e # es) = sleeps es"

text \<open>The events of \<open>n\<close> failed attempts: a GET, then a sleep after each but the last.\<close>

definition failed_attempts :: "monitoring \<Rightarrow> target \<Rightarrow> nat \<Rightarrow> mevent list" where
  "failed_attempts c t n =
     concat (replicate (n - 1)
               [HttpGet (t_url t) (timeout_seconds c) (t_headers t),
                TimeSleep (retry_delay_seconds c)])
     @ (if n = 0 then [] else [HttpGet (t_url t) (timeout_seconds c) (t_headers t)])"

subsection \<open>ConfigValidator\<close>

text \<open>
  A valid configuration in the words of the specification: the monitoring settings are
  numbers and \<open>max_retries\<close> is a non-negative integer; the security section has an
  integer \<open>max_urls\<close>, a non-empty list \<open>allowed_schemes\<close> and numeric limits; there are
  at most \<open>max_urls\<close> targets; each target has \<open>name\<close>, \<open>url\<close>, \<open>expected_status\<close> and its
  url parses as an absolute url of scheme \<open>https\<close>.
\<close>

definition numeric :: "json \<Rightarrow> bool" where
  "numeric v = (case v of JInt n \<Rightarrow> True | JFloat r \<Rightarrow> True | _ \<Rightarrow> False)"

definition field :: "(string \<times> json) list \<Rightarrow> string \<Rightarrow> json" where
  "field kvs k = (case map_of kvs k of None \<Rightarrow> JNull | Some v \<Rightarrow> v)"

definition valid_target :: "urlparser \<Rightarrow> json \<Rightarrow> bool" where
  "valid_target urlparse t =
     (case t of
        JObj kvs \<Rightarrow>
          map_of kvs ''name'' \<noteq> None \<and> map_of kvs ''expected_status'' \<noteq> None \<and>
          (case map_of kvs ''url'' of
             Some (JStr u) \<Rightarrow>
               (case urlparse u of
                  Inr (scheme, netloc) \<Rightarrow> scheme = ''https'' \<and> netloc \<noteq> []
                | Inl e \<Rightarrow> False)
           | _ \<Rightarrow> False)
      | _ \<Rightarrow> False)"

definition valid_config :: "urlparser \<Rightarrow> json \<Rightarrow> bool" where
  "valid_config urlparse config =
     (case config of
        JObj kvs0 \<Rightarrow>
          (case (map_of kvs0 ''monitoring'', map_of kvs0 ''security'') of
             (Some (JObj m), Some (JObj sec)) \<Rightarrow>
               numeric (field m ''interval_minutes'') \<and>
               numeric (field m ''timeout_seconds'') \<and>
               numeric (field m ''retry_delay_seconds'') \<and>
               (case field m ''max_retries'' of JInt n \<Rightarrow> 0 \<le> n | _ \<Rightarrow> False) \<and>
               (case field sec ''allowed_schemes'' of JList xs \<Rightarrow> xs \<noteq> [] | _ \<Rightarrow> False) \<and>
               numeric (field sec ''max_timeout_seconds'') \<and>
               numeric (field sec ''max_interval_minutes'') \<and>
               (case (field sec ''max_urls'', field m ''urls'') of
                  (JInt k, JList ts) \<Rightarrow>
                    int (length ts) \<le> k \<and> list_all (valid_target urlparse) ts
                | _ \<Rightarrow> False)
           | _ \<Rightarrow> False)
      | _ \<Rightarrow> False)"

text \<open>The targets of a configuration, as \<open>validate_config\<close> finds them.\<close>

definition targets_of :: "json \<Rightarrow> json list" where
  "targets_of config =
     (case config of
        JObj kvs0 \<Rightarrow>
          (case map_of kvs0 ''monitoring'' of
             Some (JObj m) \<Rightarrow> (case map_of m ''urls'' of Some (JList ts) \<Rightarrow> ts | _ \<Rightarrow> [])
           | _ \<Rightarrow> [])
      | _ \<Rightarrow> [])"

definition setting :: "string \<Rightarrow> string \<Rightarrow> json \<Rightarrow> json option" where
  "setting sect k config =
     (case config of
        JObj kvs0 \<Rightarrow>
          (case map_of kvs0 sect of Some (JObj m) \<Rightarrow> map_of m k | _ \<Rightarrow> None)
      | _ \<Rightarrow> None)"

definition missing_field :: "json \<Rightarrow> bool" where
  "missing_field t =
     (case t of
        JObj kvs \<Rightarrow>
          map_of kvs ''name'' = None \<or> map_of kvs ''url'' = None \<or>
          map_of kvs ''expected_status'' = None
      | _ \<Rightarrow> False)"

definition not_https :: "urlparser \<Rightarrow> json \<Rightarrow> bool" where
  "not_https urlparse t =
     (case t of
        JObj kvs \<Rightarrow>
          (case map_of kvs ''url'' of
             Some (JStr u) \<Rightarrow>
               (case urlparse u of Inr (scheme, netloc) \<Rightarrow> scheme \<noteq> ''https'' | Inl e \<Rightarrow> False)
           | _ \<Rightarrow> False)
      | _ \<Rightarrow> False)"

text \<open>What a target that passes the loop of \<open>validate_config\<close> looks like.\<close>

definition accepted_target :: "urlparser \<Rightarrow> json \<Rightarrow> bool" where
  "accepted_target urlparse t \<longleftrightarrow>
     (\<exists>kvs u. t = JObj kvs \<and> map_of kvs ''name'' \<noteq> None \<and>
        map_of kvs ''expected_status'' \<noteq> None \<and> map_of kvs ''url'' = Some u \<and>
        validate_url urlparse u)"

text \<open>The value of \<^verbatim>\<open>monitoring.get('urls', [])\<close>.\<close>

definition configured_urls :: "(string \<times> json) list \<Rightarrow> json" where
  "configured_urls m = (case map_of m ''urls'' of None \<Rightarrow> JList [] | Some v \<Rightarrow> v)"

section \<open>Concrete inputs\<close>

definition quiet_world :: aworld where
  "quiet_world =
     \<lparr>blobs = Map.empty, clock = (\<lambda>k. 1000 + int k), clock_reads = 0,
      blob_fault = (\<lambda>k. False), blob_calls = 0,
      post_result = (\<lambda>k. if k = 0 then RequestException ''timed out'' else Response 204),
      posts = 0, trace = []\<rparr>"

text \<open>A world whose clock jumps by the whole cooldown window after its first reading.\<close>

definition late_world :: aworld where
  "late_world = quiet_world\<lparr>clock := (\<lambda>k. if k = 0 then 1000 else 1800001000)\<rparr>"

text \<open>A world whose clock starts on 2024-05-01 at 10:00.\<close>

definition present_world :: aworld where
  "present_world = quiet_world\<lparr>clock := (\<lambda>k. 63850154400000000 + int k)\<rparr>"

definition alerting :: settings where
  "alerting =
     \<lparr>CONSECUTIVE_FAILURES_THRESHOLD = 3, DISCORD_WEBHOOK_URL = ''https://discord.test/hook'',
      blob_service_client = True, ALERT_COOLDOWN_MINUTES = 30\<rparr>"


definition no_window :: settings where
  "no_window = alerting\<lparr>ALERT_COOLDOWN_MINUTES := 0\<rparr>"

definition endless_window :: settings where
  "endless_window = alerting\<lparr>ALERT_COOLDOWN_MINUTES := 5000000000\<rparr>"

definition entry :: "string \<Rightarrow> string \<Rightarrow> string \<Rightarrow> string \<Rightarrow> log_entry" where
  "entry u n t st = \<lparr>l_url = u, l_name = n, l_timestamp = t, l_status = st\<rparr>"

definition failing_history :: "log_entry list" where
  "failing_history =
     [entry ''https://a.test/x'' ''old name'' ''2024-05-01T10:00:00'' ''UP'',
      entry ''https://a.test/x'' ''api'' ''2024-05-01T10:05:00'' ''DOWN'',
      entry ''https://a.test/x'' ''api'' ''2024-05-01T10:10:00'' ''DOWN'',
      entry ''https://a.test/x'' ''new name'' ''2024-05-01T10:15:00'' ''DOWN'']"

definition recovered_history :: "log_entry list" where
  "recovered_history =
     [entry ''https://a.test/x'' ''api'' ''2024-05-01T10:00:00'' ''DOWN'',
      entry ''https://a.test/x'' ''api'' ''2024-05-01T10:05:00'' ''DOWN'',
      entry ''https://a.test/x'' ''api'' ''2024-05-01T10:10:00'' ''UP'']"

definition two_alerts :: "alert list" where
  "two_alerts =
     [\<lparr>a_url = ''https://a.test/x'', a_name = ''a'', consecutive_failures = 3,
       last_status = ''DOWN'', last_check = ''2024-05-01T10:15:00''\<rparr>,
      \<lparr>a_url = ''https://b.test/y'', a_name = ''b'', consecutive_failures = 12,
       last_status = ''DOWN'', last_check = ''2024-05-01T10:16:00''\<rparr>]"

definition api_target :: target where
  "api_target = \<lparr>t_name = ''api'', t_url = ''https://a.test/x'', expected_status = 200,
                 t_headers = []\<rparr>"

definition web_target :: target where
  "web_target = \<lparr>t_name = ''web'', t_url = ''https://b.test/y'', expected_status = 200,
                 t_headers = []\<rparr>"

definition three_tries :: monitoring where
  "three_tries =
     \<lparr>interval_minutes = 5, timeout_seconds = 10, max_retries = 3, retry_delay_seconds = 2,
      urls = [api_target, web_target]\<rparr>"

definition negative_delay :: monitoring where
  "negative_delay = three_tries\<lparr>retry_delay_seconds := - 1\<rparr>"

definition huge_delay :: monitoring where
  "huge_delay = three_tries\<lparr>retry_delay_seconds := 10000000000\<rparr>"

text \<open>
  One time type: a signed 64-bit count of nanoseconds, which is what CPython 3.11 converts
  an \<open>int\<close> argument of \<open>time.sleep\<close> to.
\<close>

definition nanoseconds_int64 :: "rat \<Rightarrow> string option" where
  "nanoseconds_int64 d =
     (if \<bar>d\<bar> * 1000000000 > 9223372036854775807
      then Some ''timestamp too large to convert to C _PyTime_t'' else None)"

definition unreachable :: mworld where
  "unreachable =
     \<lparr>get_result = (\<lambda>k. RequestException (''timeout '' @ string_of_nat k)), gets = 0,
      utc = (\<lambda>k. ''2024-05-01T10:00:00''), utc_reads = 0,
      sleep_overflow = nanoseconds_int64, mtrace = []\<rparr>"


text \<open>
  One url parser for the concrete configurations: it reads \<open>scheme://netloc\<close> followed by
  a path, a query or a fragment, and finds no scheme and no netloc otherwise.
\<close>

definition example_urlparse :: urlparser where
  "example_urlparse u =
     (let scheme = takeWhile (\<lambda>c. c \<noteq> CHR '':'') u;
          rest = drop (length scheme) u
      in if take 3 rest = ''://''
         then Inr (scheme, takeWhile (\<lambda>c. c \<notin> set ''/?#'') (drop 3 rest))
         else Inr ([], []))"

definition config_with :: "json \<Rightarrow> json list \<Rightarrow> json" where
  "config_with retries ts =
     JObj [(''monitoring'',
            JObj [(''interval_minutes'', JInt 5), (''timeout_seconds'', JInt 10),
                  (''max_retries'', retries), (''retry_delay_seconds'', JFloat 2),
                  (''urls'', JList ts)]),
           (''security'',
            JObj [(''max_urls'', JInt 2), (''allowed_schemes'', JList [JStr ''https'']),
                  (''max_timeout_seconds'', JInt 30), (''max_interval_minutes'', JInt 60)])]"

definition target_json :: "string \<Rightarrow> json" where
  "target_json u = JObj [(''name'', JStr ''api''), (''url'', JStr u), (''expected_status'', JInt 200)]"

definition good_config :: json where
  "good_config = config_with (JInt 3) [target_json ''https://a.test/x'']"


definition http_config :: json where
  "http_config = config_with (JInt 3) [target_json ''http://a.test/x'']"

definition nameless_config :: json where
  "nameless_config =
     config_with (JInt 3)
       [JObj [(''url'', JStr ''https://a.test/x''), (''expected_status'', JInt 200)]]"

definition crowded_config :: json where
  "crowded_config =
     config_with (JInt 3)
       [target_json ''https://a.test/x'', target_json ''https://b.test/y'',
        target_json ''https://c.test/z'']"


section \<open>Properties of the alerting function\<close>

subsection \<open>Grouping and counting\<close>

lemma dict_append_keys: "fst ` set (dict_append u l d) = insert u (fst ` set d)"
  by (induction u l d rule: dict_append.induct) auto

lemma dict_append_distinct:
  "distinct (map fst d) \<Longrightarrow> distinct (map fst (dict_append u l d))"
  by (induction u l d rule: dict_append.induct) (auto simp: dict_append_keys)

lemma map_of_dict_append:
  "map_of (dict_append u l d) k =
     (if k = u then Some (entries d u @ [l]) else map_of d k)"
  by (induction u l d rule: dict_append.induct) (auto simp: entries_def)

lemma dict_append_nonempty:
  "\<forall>g\<in>set d. snd g \<noteq> [] \<Longrightarrow> \<forall>g\<in>set (dict_append u l d). snd g \<noteq> []"
  by (induction u l d rule: dict_append.induct) auto

lemma group_logs_keys: "fst ` set (group_logs ls d) = l_url ` set ls \<union> fst ` set d"
  by (induction ls arbitrary: d) (auto simp: dict_append_keys)

lemma group_logs_distinct:
  "distinct (map fst d) \<Longrightarrow> distinct (map fst (group_logs ls d))"
  by (induction ls arbitrary: d) (auto simp: dict_append_distinct)

lemma group_logs_nonempty:
  "\<forall>g\<in>set d. snd g \<noteq> [] \<Longrightarrow> \<forall>g\<in>set (group_logs ls d). snd g \<noteq> []"
proof (induction ls arbitrary: d)
  case Nil
  then show ?case by simp
next
  case (Cons l ls)
  from Cons.prems have "\<forall>g\<in>set (dict_append (l_url l) l d). snd g \<noteq> []"
    by (rule dict_append_nonempty)
  then show ?case using Cons.IH by simp
qed

lemma entries_dict_append:
  "entries (dict_append u l d) k = (if k = u then entries d u @ [l] else entries d k)"
  by (simp add: entries_def map_of_dict_append)

lemma entries_group_logs:
  "entries (group_logs ls d) k = entries d k @ url_group k ls"
  by (induction ls arbitrary: d) (auto simp: entries_dict_append url_group_def)

lemma group_logs_member:
  assumes "(u, g) \<in> set (group_logs logs [])"
  shows "g = url_group u logs"
proof -
  have "distinct (map fst (group_logs logs []))" by (simp add: group_logs_distinct)
  with assms have "map_of (group_logs logs []) u = Some g" by simp
  then have "entries (group_logs logs []) u = g" by (simp add: entries_def)
  moreover have "entries (group_logs logs []) u = entries [] u @ url_group u logs"
    by (rule entries_group_logs)
  ultimately show ?thesis by (simp add: entries_def)
qed

lemma count_failures_takeWhile:
  "count_failures xs c = c + length (takeWhile (\<lambda>l. l_status l = ''DOWN'') xs)"
  by (induction xs arbitrary: c) auto

lemma consecutive_trailing: "count_failures (rev (sorted_logs ls)) 0 = trailing_down ls"
  by (simp add: count_failures_takeWhile trailing_down_def sorted_logs_def)

lemma sorted_logs_Nil: "sorted_logs g = [] \<longleftrightarrow> g = []"
  by (metis sorted_logs_def length_sort length_0_conv)

lemma analyze_group_fst:
  assumes "g \<noteq> []"
  shows "fst (analyze_group s (u, g) w) = Inr (if due s u g w then [alert_of u g] else [])"
proof -
  from assms obtain x xs where sl: "sorted_logs g = x # xs"
    by (cases "sorted_logs g") (auto simp: sorted_logs_Nil)
  have cf: "count_failures (rev xs @ [x]) 0 = trailing_down g"
    using consecutive_trailing [of g] by (simp add: sl)
  show ?thesis
    by (cases "is_in_cooldown s u w")
       (auto simp: analyze_group_def Let_def due_def alert_of_def sl cf split: bool.splits)
qed

lemma analyze_groups_Cons_snd:
  assumes "snd g \<noteq> []"
  shows "snd (analyze_groups s (g # gs) w) = snd (analyze_groups s gs (snd (analyze_group s g w)))"
proof -
  obtain u ls where g: "g = (u, ls)" by (cases g)
  with assms have "ls \<noteq> []" by simp
  from analyze_group_fst [OF this, of s u w] obtain new w1
    where "analyze_group s g w = (Inr new, w1)"
    unfolding g by (cases "analyze_group s (u, ls) w") auto
  then show ?thesis
    by (cases "analyze_groups s gs w1") (auto split: sum.splits)
qed

lemma world_at_hd: "world_at s ((u, g) # gs) u w = w"
  by (simp add: world_at_def)

lemma world_at_tl:
  "k \<noteq> u \<Longrightarrow> g \<noteq> [] \<Longrightarrow>
   world_at s ((k, g) # gs) u w = world_at s gs u (snd (analyze_group s (k, g) w))"
  unfolding world_at_def
  by (simp del: analyze_groups.simps add: analyze_groups_Cons_snd)

lemma analyze_groups_alerts:
  assumes "\<forall>g\<in>set gs. snd g \<noteq> []" and "distinct (map fst gs)"
  shows "\<exists>alerts. fst (analyze_groups s gs w) = Inr alerts \<and>
           a_url ` set alerts \<subseteq> fst ` set gs \<and>
           (\<forall>(u, g)\<in>set gs.
              filter (\<lambda>a. a_url a = u) alerts =
                (if due s u g (world_at s gs u w) then [alert_of u g] else []))"
  using assms
proof (induction gs arbitrary: w)
  case Nil
  then show ?case by simp
next
  case (Cons p gs)
  obtain k g0 where p: "p = (k, g0)" by (cases p)
  from Cons.prems p have ne: "g0 \<noteq> []" by simp
  define new where "new = (if due s k g0 w then [alert_of k g0] else [])"
  define w1 where "w1 = snd (analyze_group s (k, g0) w)"
  have step: "analyze_group s (k, g0) w = (Inr new, w1)"
    using analyze_group_fst [OF ne, of s k w]
    by (simp add: new_def w1_def prod_eq_iff)
  from Cons.prems have "\<forall>g\<in>set gs. snd g \<noteq> []" "distinct (map fst gs)" by simp_all
  from Cons.IH [OF this, of w1] obtain rest where
    rest: "fst (analyze_groups s gs w1) = Inr rest"
    and urls: "a_url ` set rest \<subseteq> fst ` set gs"
    and each: "\<forall>(u, g)\<in>set gs.
        filter (\<lambda>a. a_url a = u) rest =
          (if due s u g (world_at s gs u w1) then [alert_of u g] else [])"
    by blast
  have res: "fst (analyze_groups s (p # gs) w) = Inr (new @ rest)"
    using step rest by (cases "analyze_groups s gs w1") (auto simp: p)
  have knew: "a_url ` set new \<subseteq> {k}" by (auto simp: new_def alert_of_def)
  have kfresh: "k \<notin> fst ` set gs" using Cons.prems p by auto
  have "a_url ` set (new @ rest) \<subseteq> fst ` set (p # gs)"
    using knew urls by (auto simp: p)
  moreover have "filter (\<lambda>a. a_url a = k) (new @ rest) =
      (if due s k g0 (world_at s (p # gs) k w) then [alert_of k g0] else [])"
  proof -
    have "filter (\<lambda>a. a_url a = k) rest = []"
      using urls kfresh by (auto simp: filter_empty_conv)
    moreover have "filter (\<lambda>a. a_url a = k) new = new"
      by (auto simp: new_def alert_of_def)
    ultimately show ?thesis by (simp add: p world_at_hd new_def)
  qed
  moreover have "\<forall>(u, g)\<in>set gs. filter (\<lambda>a. a_url a = u) (new @ rest) =
      (if due s u g (world_at s (p # gs) u w) then [alert_of u g] else [])"
  proof clarify
    fix u g assume ug: "(u, g) \<in> set gs"
    then have neq: "k \<noteq> u" using kfresh by force
    then have "filter (\<lambda>a. a_url a = u) new = []"
      by (auto simp: new_def alert_of_def)
    moreover have "world_at s (p # gs) u w = world_at s gs u w1"
      using neq ne by (simp add: p world_at_tl w1_def)
    ultimately show "filter (\<lambda>a. a_url a = u) (new @ rest) =
      (if due s u g (world_at s (p # gs) u w) then [alert_of u g] else [])"
      using each ug by auto
  qed
  ultimately show ?case using res by (auto simp: p)
qed

lemma analyze_logs_alerts:
  "\<exists>alerts. fst (analyze_logs s logs w) = Inr alerts \<and>
     a_url ` set alerts \<subseteq> l_url ` set logs \<and>
     (\<forall>u\<in>l_url ` set logs.
        filter (\<lambda>a. a_url a = u) alerts =
          (if CONSECUTIVE_FAILURES_THRESHOLD s \<le> int (trailing_down (url_group u logs))
              \<and> \<not> suppressed_at s logs u w
           then [alert_of u (url_group u logs)] else []))"
proof -
  let ?gs = "group_logs logs []"
  have ne: "\<forall>g\<in>set ?gs. snd g \<noteq> []" by (rule group_logs_nonempty) simp
  have di: "distinct (map fst ?gs)" by (rule group_logs_distinct) simp
  have keys: "fst ` set ?gs = l_url ` set logs" by (simp add: group_logs_keys)
  from analyze_groups_alerts [OF ne di, of s w] obtain alerts where
    a1: "fst (analyze_groups s ?gs w) = Inr alerts"
    and a2: "a_url ` set alerts \<subseteq> fst ` set ?gs"
    and a3: "\<forall>(u, g)\<in>set ?gs. filter (\<lambda>a. a_url a = u) alerts =
                (if due s u g (world_at s ?gs u w) then [alert_of u g] else [])"
    by blast
  have "filter (\<lambda>a. a_url a = u) alerts =
          (if CONSECUTIVE_FAILURES_THRESHOLD s \<le> int (trailing_down (url_group u logs))
              \<and> \<not> suppressed_at s logs u w
           then [alert_of u (url_group u logs)] else [])"
    if "u \<in> l_url ` set logs" for u
  proof -
    from that keys obtain g where ug: "(u, g) \<in> set ?gs" by force
    then have g: "g = url_group u logs" by (rule group_logs_member)
    from a3 ug show ?thesis by (auto simp: g due_def suppressed_at_def)
  qed
  with a1 a2 keys show ?thesis by (auto simp: analyze_logs_def)
qed

lemma no_store_never_suppressed: "\<not> blob_service_client s \<Longrightarrow> \<not> suppressed_at s logs u w"
  by (simp add: suppressed_at_def is_in_cooldown_def)

lemma hd_sort_key_least:
  fixes f :: "'a \<Rightarrow> 'b::linorder"
  assumes "xs \<noteq> []"
  shows "hd (sort_key f xs) \<in> set xs \<and> (\<forall>x\<in>set xs. f (hd (sort_key f xs)) \<le> f x)"
proof -
  from assms obtain y ys where ys: "sort_key f xs = y # ys"
    by (cases "sort_key f xs") (auto dest: arg_cong [where f = length])
  have "sorted (map f (sort_key f xs))" by simp
  then have "\<forall>z\<in>set ys. f y \<le> f z" by (simp add: ys)
  moreover have "set xs = insert y (set ys)" using set_sort [of f xs] by (simp add: ys)
  ultimately show ?thesis by (auto simp: ys)
qed

lemma last_sort_key_greatest:
  fixes f :: "'a \<Rightarrow> 'b::linorder"
  assumes "xs \<noteq> []"
  shows "last (sort_key f xs) \<in> set xs \<and> (\<forall>x\<in>set xs. f x \<le> f (last (sort_key f xs)))"
proof -
  have ne: "sort_key f xs \<noteq> []" using assms by (auto dest: arg_cong [where f = length])
  then have ys: "sort_key f xs = butlast (sort_key f xs) @ [last (sort_key f xs)]" by simp
  have "sorted (map f (sort_key f xs))" by simp
  then have "sorted (map f (butlast (sort_key f xs) @ [last (sort_key f xs)]))"
    using ys by simp
  then have "\<forall>z\<in>set (butlast (sort_key f xs)). f z \<le> f (last (sort_key f xs))"
    by (simp add: sorted_append)
  moreover have "set xs = insert (last (sort_key f xs)) (set (butlast (sort_key f xs)))"
    using set_sort [of f xs] arg_cong [OF ys, of set] by auto
  moreover have "last (sort_key f xs) \<in> set xs" using ne last_in_set set_sort by metis
  ultimately show ?thesis by auto
qed

subsection \<open>The alerts of a run\<close>

lemma failing_groups: "group_logs failing_history [] = [(''https://a.test/x'', failing_history)]"
  by (simp add: failing_history_def entry_def)

lemma recovered_groups: "group_logs recovered_history [] = [(''https://a.test/x'', recovered_history)]"
  by (simp add: recovered_history_def entry_def)

lemma failing_trailing: "trailing_down failing_history = 3"
  by (simp add: trailing_down_def failing_history_def entry_def)

lemma recovered_trailing: "trailing_down recovered_history = 0"
  by (simp add: trailing_down_def recovered_history_def entry_def)

lemma analyze_single_group:
  assumes "g \<noteq> []"
  shows "fst (analyze_groups s [(u, g)] w) = Inr (if due s u g w then [alert_of u g] else [])"
proof -
  from analyze_group_fst [OF assms, of s u w] show ?thesis
    by (cases "analyze_group s (u, g) w") (auto split: sum.splits)
qed

text \<open>
  Claim C2. \<open>analyze_logs\<close> never raises and, for every url \<open>u\<close> occurring in the logs,
  emits exactly one alert for \<open>u\<close> when the number of trailing \<open>DOWN\<close> records of the
  group of \<open>u\<close> (sorted by timestamp, counted from the most recent backwards) reaches the
  threshold and \<open>u\<close> is not suppressed when the loop reaches it, and none otherwise; an
  emitted alert carries that number. For one url with statuses \<open>UP, DOWN, DOWN, DOWN\<close>
  and threshold 3 one alert with 3 consecutive failures is emitted if the url is not in
  cooldown; for \<open>DOWN, DOWN, UP\<close> none is.
\<close>

theorem analyze_logs_emits_iff_due:
  "(\<exists>alerts. fst (analyze_logs s logs w) = Inr alerts \<and>
      (\<forall>u\<in>l_url ` set logs.
         length (filter (\<lambda>a. a_url a = u) alerts) =
           (if CONSECUTIVE_FAILURES_THRESHOLD s \<le> int (trailing_down (url_group u logs))
               \<and> \<not> suppressed_at s logs u w
            then 1 else 0) \<and>
         (\<forall>a\<in>set alerts. a_url a = u \<longrightarrow>
            consecutive_failures a = trailing_down (url_group u logs)))) \<and>
   (CONSECUTIVE_FAILURES_THRESHOLD s = 3 \<and> \<not> fst (is_in_cooldown s ''https://a.test/x'' w) \<longrightarrow>
      (\<exists>a. fst (analyze_logs s failing_history w) = Inr [a] \<and> consecutive_failures a = 3)) \<and>
   (CONSECUTIVE_FAILURES_THRESHOLD s = 3 \<longrightarrow>
      fst (analyze_logs s recovered_history w) = Inr [])"
proof (intro conjI)
  from analyze_logs_alerts [of s logs w] obtain alerts where
    a1: "fst (analyze_logs s logs w) = Inr alerts"
    and a3: "\<forall>u\<in>l_url ` set logs.
        filter (\<lambda>a. a_url a = u) alerts =
          (if CONSECUTIVE_FAILURES_THRESHOLD s \<le> int (trailing_down (url_group u logs))
              \<and> \<not> suppressed_at s logs u w
           then [alert_of u (url_group u logs)] else [])"
    by blast
  have "length (filter (\<lambda>a. a_url a = u) alerts) =
           (if CONSECUTIVE_FAILURES_THRESHOLD s \<le> int (trailing_down (url_group u logs))
               \<and> \<not> suppressed_at s logs u w
            then 1 else 0) \<and>
         (\<forall>a\<in>set alerts. a_url a = u \<longrightarrow>
            consecutive_failures a = trailing_down (url_group u logs))"
    if u: "u \<in> l_url ` set logs" for u
  proof
    from bspec [OF a3 u] show "length (filter (\<lambda>a. a_url a = u) alerts) =
           (if CONSECUTIVE_FAILURES_THRESHOLD s \<le> int (trailing_down (url_group u logs))
               \<and> \<not> suppressed_at s logs u w
            then 1 else 0)"
      by simp
    show "\<forall>a\<in>set alerts. a_url a = u \<longrightarrow>
            consecutive_failures a = trailing_down (url_group u logs)"
    proof (intro ballI impI)
      fix a assume "a \<in> set alerts" "a_url a = u"
      then have "a \<in> set (filter (\<lambda>a. a_url a = u) alerts)" by simp
      with bspec [OF a3 u] have "a = alert_of u (url_group u logs)"
        by (auto split: if_splits)
      then show "consecutive_failures a = trailing_down (url_group u logs)"
        by (simp add: alert_of_def)
    qed
  qed
  with a1 show "\<exists>alerts. fst (analyze_logs s logs w) = Inr alerts \<and>
      (\<forall>u\<in>l_url ` set logs.
         length (filter (\<lambda>a. a_url a = u) alerts) =
           (if CONSECUTIVE_FAILURES_THRESHOLD s \<le> int (trailing_down (url_group u logs))
               \<and> \<not> suppressed_at s logs u w
            then 1 else 0) \<and>
         (\<forall>a\<in>set alerts. a_url a = u \<longrightarrow>
            consecutive_failures a = trailing_down (url_group u logs)))"
    by blast
next
  have ne: "failing_history \<noteq> []" by (simp add: failing_history_def)
  show "CONSECUTIVE_FAILURES_THRESHOLD s = 3 \<and> \<not> fst (is_in_cooldown s ''https://a.test/x'' w) \<longrightarrow>
      (\<exists>a. fst (analyze_logs s failing_history w) = Inr [a] \<and> consecutive_failures a = 3)"
    using analyze_single_group [OF ne, of s "''https://a.test/x''" w]
    by (auto simp: analyze_logs_def failing_groups due_def failing_trailing alert_of_def)
next
  have ne: "recovered_history \<noteq> []" by (simp add: recovered_history_def)
  show "CONSECUTIVE_FAILURES_THRESHOLD s = 3 \<longrightarrow>
      fst (analyze_logs s recovered_history w) = Inr []"
    using analyze_single_group [OF ne, of s "''https://a.test/x''" w]
    by (auto simp: analyze_logs_def recovered_groups due_def recovered_trailing)
qed

lemma failing_history_not_suppressed: "\<not> suppressed_at alerting failing_history ''https://a.test/x'' quiet_world"
  by code_simp

lemma failing_history_group: "url_group ''https://a.test/x'' failing_history = failing_history"
  by (simp add: url_group_def failing_history_def entry_def)

lemma quiet_world_no_cooldown: "\<not> fst (is_in_cooldown alerting ''https://a.test/x'' quiet_world)"
  by code_simp

theorem analyze_logs_emits_iff_due_witness:
  "(\<exists>alerts. fst (analyze_logs alerting failing_history quiet_world) = Inr alerts \<and>
      length (filter (\<lambda>a. a_url a = ''https://a.test/x'') alerts) = 1) \<and>
   (\<exists>a. fst (analyze_logs alerting failing_history quiet_world) = Inr [a] \<and>
        consecutive_failures a = 3) \<and>
   fst (analyze_logs alerting recovered_history quiet_world) = Inr []"
proof -
  have u: "''https://a.test/x'' \<in> l_url ` set failing_history"
    by (simp add: failing_history_def entry_def)
  have thr: "CONSECUTIVE_FAILURES_THRESHOLD alerting = 3" by (simp add: alerting_def)
  note T = analyze_logs_emits_iff_due [of alerting failing_history quiet_world]
  from T obtain alerts where
    a: "fst (analyze_logs alerting failing_history quiet_world) = Inr alerts"
    and b: "\<forall>u\<in>l_url ` set failing_history.
         length (filter (\<lambda>a. a_url a = u) alerts) =
           (if CONSECUTIVE_FAILURES_THRESHOLD alerting
                 \<le> int (trailing_down (url_group u failing_history))
               \<and> \<not> suppressed_at alerting failing_history u quiet_world
            then 1 else 0) \<and>
         (\<forall>a\<in>set alerts. a_url a = u \<longrightarrow>
            consecutive_failures a = trailing_down (url_group u failing_history))"
    by blast
  from bspec [OF b u] have "length (filter (\<lambda>a. a_url a = ''https://a.test/x'') alerts) = 1"
    by (simp add: failing_history_not_suppressed failing_history_group failing_trailing thr)
  with a T thr quiet_world_no_cooldown show ?thesis by simp
qed

lemma emitted_alert:
  assumes "fst (analyze_logs s logs w) = Inr alerts" and "a \<in> set alerts"
  shows "a = alert_of (a_url a) (url_group (a_url a) logs) \<and> a_url a \<in> l_url ` set logs"
proof -
  from analyze_logs_alerts [of s logs w] assms(1) have
    sub: "a_url ` set alerts \<subseteq> l_url ` set logs"
    and each: "\<forall>u\<in>l_url ` set logs.
        filter (\<lambda>a. a_url a = u) alerts =
          (if CONSECUTIVE_FAILURES_THRESHOLD s \<le> int (trailing_down (url_group u logs))
              \<and> \<not> suppressed_at s logs u w
           then [alert_of u (url_group u logs)] else [])"
    by auto
  from sub assms(2) have u: "a_url a \<in> l_url ` set logs" by blast
  from assms(2) have "a \<in> set (filter (\<lambda>b. a_url b = a_url a) alerts)" by simp
  with bspec [OF each u] have "a = alert_of (a_url a) (url_group (a_url a) logs)"
    by (auto split: if_splits)
  with u show ?thesis by simp
qed

lemma url_group_nonempty: "u \<in> l_url ` set logs \<Longrightarrow> url_group u logs \<noteq> []"
  by (auto simp: url_group_def filter_empty_conv)

text \<open>
  Claim C10. In every emitted alert the name is that of a record of the url's group with
  the earliest timestamp, while \<open>last_status\<close> and \<open>last_check\<close> are those of a record of
  the group with the latest timestamp: with different names in the group, the alert
  carries the oldest name next to the newest status and timestamp.
\<close>

theorem alert_name_oldest_status_newest:
  assumes "fst (analyze_logs s logs w) = Inr alerts" and "a \<in> set alerts"
  shows "\<exists>oldest newest.
           oldest \<in> set (url_group (a_url a) logs) \<and>
           newest \<in> set (url_group (a_url a) logs) \<and>
           (\<forall>l\<in>set (url_group (a_url a) logs).
              l_timestamp oldest \<le> l_timestamp l \<and> l_timestamp l \<le> l_timestamp newest) \<and>
           a_name a = l_name oldest \<and>
           last_status a = l_status newest \<and>
           last_check a = l_timestamp newest"
proof -
  let ?g = "url_group (a_url a) logs"
  from emitted_alert [OF assms] have a: "a = alert_of (a_url a) ?g"
    and u: "a_url a \<in> l_url ` set logs" by simp_all
  from u have ne: "?g \<noteq> []" by (rule url_group_nonempty)
  let ?oldest = "hd (sorted_logs ?g)" and ?newest = "last (sorted_logs ?g)"
  from hd_sort_key_least [OF ne, of l_timestamp]
  have o: "?oldest \<in> set ?g" "\<forall>l\<in>set ?g. l_timestamp ?oldest \<le> l_timestamp l"
    by (simp_all add: sorted_logs_def)
  from last_sort_key_greatest [OF ne, of l_timestamp]
  have n: "?newest \<in> set ?g" "\<forall>l\<in>set ?g. l_timestamp l \<le> l_timestamp ?newest"
    by (simp_all add: sorted_logs_def)
  have "a_name a = l_name ?oldest" "last_status a = l_status ?newest"
    "last_check a = l_timestamp ?newest"
    by (subst a, simp add: alert_of_def)+
  with o n show ?thesis by blast
qed

lemma failing_history_alert:
  "fst (analyze_logs alerting failing_history quiet_world) =
     Inr [\<lparr>a_url = ''https://a.test/x'', a_name = ''old name'', consecutive_failures = 3,
           last_status = ''DOWN'', last_check = ''2024-05-01T10:15:00''\<rparr>]"
  by code_simp

theorem alert_name_oldest_status_newest_witness:
  "\<exists>oldest newest.
     oldest \<in> set (url_group ''https://a.test/x'' failing_history) \<and>
     newest \<in> set (url_group ''https://a.test/x'' failing_history) \<and>
     (\<forall>l\<in>set (url_group ''https://a.test/x'' failing_history).
        l_timestamp oldest \<le> l_timestamp l \<and> l_timestamp l \<le> l_timestamp newest) \<and>
     ''old name'' = l_name oldest \<and> ''DOWN'' = l_status newest \<and>
     ''2024-05-01T10:15:00'' = l_timestamp newest"
  using alert_name_oldest_status_newest [OF failing_history_alert, of
      "\<lparr>a_url = ''https://a.test/x'', a_name = ''old name'', consecutive_failures = 3,
        last_status = ''DOWN'', last_check = ''2024-05-01T10:15:00''\<rparr>"]
  by simp

subsection \<open>Sending\<close>

lemma posted_append: "posted (xs @ ys) = posted xs @ posted ys"
  by (induction xs rule: posted.induct) auto

lemma http_post_world:
  "post_result (snd (http_post u m w)) = post_result w"
  "posts (snd (http_post u m w)) = Suc (posts w)"
  "trace (snd (http_post u m w)) = trace w @ [HttpPost u m]"
  "blobs (snd (http_post u m w)) = blobs w"
  "fst (http_post u m w) = post_result w (posts w)"
  by (simp_all add: http_post_def)

lemma sleep_world:
  "post_result (sleep n w) = post_result w"
  "posts (sleep n w) = posts w"
  "trace (sleep n w) = trace w @ [Sleep n]"
  "blobs (sleep n w) = blobs w"
  by (simp_all add: sleep_def)

lemma send_loop_step:
  "\<exists>w1 pause. trace w1 = trace w @ HttpPost u (format_alert a) # pause \<and>
     posted pause = [] \<and> (\<forall>e\<in>set pause. \<not> is_store_event e) \<and>
     post_result w1 = post_result w \<and> posts w1 = Suc (posts w) \<and> blobs w1 = blobs w \<and>
     send_loop u (a # as) w =
       (case post_result w (posts w) of
          Unexpected msg \<Rightarrow> (Some (OtherException msg), w1)
        | _ \<Rightarrow> send_loop u as w1)"
proof (cases "post_result w (posts w)")
  case (Response code)
  show ?thesis
  proof (cases "raise_for_status code")
    case True
    with Response show ?thesis
      by (intro exI [of _ "snd (http_post u (format_alert a) w)"] exI [of _ "[]"])
         (simp add: http_post_world split: prod.splits, simp add: http_post_def)
  next
    case False
    with Response show ?thesis
      by (intro exI [of _ "sleep 1 (snd (http_post u (format_alert a) w))"] exI [of _ "[Sleep 1]"])
         (simp add: http_post_world sleep_world split: prod.splits, simp add: http_post_def)
  qed
next
  case (RequestException msg)
  then show ?thesis
    by (intro exI [of _ "snd (http_post u (format_alert a) w)"] exI [of _ "[]"])
       (simp add: http_post_world split: prod.splits, simp add: http_post_def)
next
  case (Unexpected msg)
  then show ?thesis
    by (intro exI [of _ "snd (http_post u (format_alert a) w)"] exI [of _ "[]"])
       (simp add: http_post_world split: prod.splits, simp add: http_post_def)
qed

lemma send_loop_posts:
  assumes "\<forall>k<length as. \<forall>msg. post_result w (posts w + k) \<noteq> Unexpected msg"
  shows "\<exists>new. fst (send_loop u as w) = None \<and>
           trace (snd (send_loop u as w)) = trace w @ new \<and>
           posted new = map (\<lambda>a. (u, format_alert a)) as"
  using assms
proof (induction as arbitrary: w)
  case Nil
  then show ?case by simp
next
  case (Cons a as)
  from send_loop_step [of w u a as] obtain w1 pause where
    tr: "trace w1 = trace w @ HttpPost u (format_alert a) # pause"
    and pz: "posted pause = []"
    and pr: "post_result w1 = post_result w" and ps: "posts w1 = Suc (posts w)"
    and sl: "send_loop u (a # as) w =
       (case post_result w (posts w) of
          Unexpected msg \<Rightarrow> (Some (OtherException msg), w1)
        | _ \<Rightarrow> send_loop u as w1)"
    by blast
  from Cons.prems have "\<forall>msg. post_result w (posts w + 0) \<noteq> Unexpected msg"
    by (metis length_Cons zero_less_Suc)
  then have go: "send_loop u (a # as) w = send_loop u as w1"
    using sl by (cases "post_result w (posts w)") auto
  have "\<forall>k<length as. \<forall>msg. post_result w1 (posts w1 + k) \<noteq> Unexpected msg"
  proof (intro allI impI)
    fix k msg assume "k < length as"
    then have "Suc k < length (a # as)" by simp
    with Cons.prems have "post_result w (posts w + Suc k) \<noteq> Unexpected msg" by blast
    then show "post_result w1 (posts w1 + k) \<noteq> Unexpected msg" by (simp add: pr ps)
  qed
  from Cons.IH [OF this] obtain new where
    "fst (send_loop u as w1) = None"
    "trace (snd (send_loop u as w1)) = trace w1 @ new"
    "posted new = map (\<lambda>a. (u, format_alert a)) as"
    by blast
  then show ?case
    by (intro exI [of _ "HttpPost u (format_alert a) # pause @ new"])
       (simp del: send_loop.simps add: go tr pz posted_append)
qed

text \<open>
  Claim C7. With a webhook configured, \<open>send_alerts\<close> issues exactly one POST per alert,
  in the order of the list, each carrying the message of its alert, whatever the
  outcomes of the requests are among responses (of any status code) and request
  exceptions: a failed send stops nothing and is not repeated.
\<close>

theorem send_alerts_one_post_per_alert:
  assumes "DISCORD_WEBHOOK_URL s \<noteq> []"
    and "\<forall>k<length alerts. \<forall>msg. post_result w (posts w + k) \<noteq> Unexpected msg"
  shows "\<exists>new. fst (send_alerts s alerts w) = None \<and>
           trace (snd (send_alerts s alerts w)) = trace w @ new \<and>
           posted new = map (\<lambda>a. (DISCORD_WEBHOOK_URL s, format_alert a)) alerts"
  using assms send_loop_posts [of alerts w "DISCORD_WEBHOOK_URL s"]
  by (simp add: send_alerts_def)

theorem send_alerts_one_post_per_alert_witness:
  "post_result quiet_world 0 = RequestException ''timed out'' \<and>
   posted (trace (snd (send_alerts alerting two_alerts quiet_world))) =
     map (\<lambda>a. (''https://discord.test/hook'', format_alert a)) two_alerts"
proof -
  have sink: "DISCORD_WEBHOOK_URL alerting \<noteq> []" by (simp add: alerting_def)
  have ok: "\<forall>k<length two_alerts. \<forall>msg.
      post_result quiet_world (posts quiet_world + k) \<noteq> Unexpected msg"
    by (simp add: quiet_world_def)
  from send_alerts_one_post_per_alert [OF sink ok] show ?thesis
    by (auto simp: quiet_world_def alerting_def)
qed

subsection \<open>The cooldown store\<close>

lemma blob_name_example: "blob_name ''https://a.test/x'' = ''cooldown_https_a.test_x''"
  by code_simp

lemma set_cooldown_stored:
  assumes "blob_service_client s" and "\<not> blob_fault w (blob_calls w)"
  shows "set_cooldown s u w =
           w\<lparr>blob_calls := Suc (blob_calls w), clock_reads := Suc (clock_reads w),
             blobs := (blobs w)(blob_name u \<mapsto> clock w (clock_reads w)),
             trace := trace w @ [BlobUpload (blob_name u) (clock w (clock_reads w))]\<rparr>"
  using assms by (simp add: set_cooldown_def upload_blob_def blob_call_def now_def)

lemma cooldown_end_computed:
  assumes "cooldown_end_exists s t0"
  shows "timedelta_minutes (ALERT_COOLDOWN_MINUTES s) =
           Inr (microseconds_of_minutes (ALERT_COOLDOWN_MINUTES s))"
    and "datetime_add t0 (microseconds_of_minutes (ALERT_COOLDOWN_MINUTES s)) =
           Inr (t0 + microseconds_of_minutes (ALERT_COOLDOWN_MINUTES s))"
  using assms by (simp_all add: cooldown_end_exists_def timedelta_minutes_def datetime_add_def)

lemma is_in_cooldown_stored:
  assumes "blob_service_client s" and "blobs w (blob_name u) = Some t0"
    and "\<not> blob_fault w (blob_calls w)" and "\<not> blob_fault w (Suc (blob_calls w))"
    and "\<not> blob_fault w (Suc (Suc (blob_calls w)))"
    and "cooldown_end_exists s t0"
  shows "fst (is_in_cooldown s u w) \<longleftrightarrow>
           clock w (clock_reads w) < t0 + microseconds_of_minutes (ALERT_COOLDOWN_MINUTES s)"
    and "\<not> fst (is_in_cooldown s u w) \<Longrightarrow>
           blobs (snd (is_in_cooldown s u w)) (blob_name u) = None \<and>
           trace (snd (is_in_cooldown s u w)) = trace w @ [BlobDelete (blob_name u)]"
  using assms(1-5)
  by (auto simp: is_in_cooldown_def blob_exists_def get_blob_properties_def delete_blob_def
        blob_call_def now_def cooldown_end_computed [OF assms(6)])

lemma is_in_cooldown_absent:
  assumes "blobs w (blob_name u) = None"
  shows "\<not> fst (is_in_cooldown s u w)"
  using assms
  by (auto simp: is_in_cooldown_def blob_exists_def blob_call_def split: prod.splits bool.splits sum.splits)

lemma one_minute_of_window:
  "0 < m \<Longrightarrow> 60000000 \<le> microseconds_of_minutes m"
  by (simp add: microseconds_of_minutes_def)

text \<open>
  Claim C5, as amended. Take a store that is configured and whose calls do not fail, a
  positive window, and a cooldown whose end is a \<open>datetime\<close>. Then \<open>set_cooldown\<close> stores the
  record of the url under the time of the write; \<open>is_in_cooldown\<close> right after it is true
  whenever its clock reading is less than the window after that time, in particular less
  than a minute after it; once the window has elapsed it is false and the record is gone.
  In any such world with a record, \<open>is_in_cooldown\<close> after the window is false and deletes
  the record; without a record \<open>is_in_cooldown\<close> is false in every world.
\<close>

theorem cooldown_round_trip_in_range:
  assumes "blob_service_client s" and "\<forall>k. \<not> blob_fault w k"
    and "0 < ALERT_COOLDOWN_MINUTES s"
    and "cooldown_end_exists s (clock w (clock_reads w))"
  shows
    "blobs (set_cooldown s u w) (blob_name u) = Some (clock w (clock_reads w)) \<and>
     (clock w (Suc (clock_reads w)) < clock w (clock_reads w) + 60000000 \<longrightarrow>
      fst (is_in_cooldown s u (set_cooldown s u w))) \<and>
     (clock w (Suc (clock_reads w))
        < clock w (clock_reads w) + microseconds_of_minutes (ALERT_COOLDOWN_MINUTES s) \<longrightarrow>
      fst (is_in_cooldown s u (set_cooldown s u w))) \<and>
     (clock w (clock_reads w) + microseconds_of_minutes (ALERT_COOLDOWN_MINUTES s)
        \<le> clock w (Suc (clock_reads w)) \<longrightarrow>
      \<not> fst (is_in_cooldown s u (set_cooldown s u w)) \<and>
      blobs (snd (is_in_cooldown s u (set_cooldown s u w))) (blob_name u) = None) \<and>
     (\<forall>t0. blobs w (blob_name u) = Some t0 \<and> cooldown_end_exists s t0 \<and>
           t0 + microseconds_of_minutes (ALERT_COOLDOWN_MINUTES s) \<le> clock w (clock_reads w) \<longrightarrow>
           \<not> fst (is_in_cooldown s u w) \<and>
           blobs (snd (is_in_cooldown s u w)) (blob_name u) = None \<and>
           trace (snd (is_in_cooldown s u w)) = trace w @ [BlobDelete (blob_name u)]) \<and>
     (\<forall>s' w'. blobs w' (blob_name u) = None \<longrightarrow> \<not> fst (is_in_cooldown s' u w'))"
proof -
  let ?w1 = "set_cooldown s u w"
  let ?stamp = "clock w (clock_reads w)"
  let ?window = "microseconds_of_minutes (ALERT_COOLDOWN_MINUTES s)"
  from assms have w1: "?w1 =
           w\<lparr>blob_calls := Suc (blob_calls w), clock_reads := Suc (clock_reads w),
             blobs := (blobs w)(blob_name u \<mapsto> ?stamp),
             trace := trace w @ [BlobUpload (blob_name u) ?stamp]\<rparr>"
    by (intro set_cooldown_stored) simp_all
  have stored: "blobs ?w1 (blob_name u) = Some ?stamp" by (simp add: w1)
  have nf: "\<forall>k. \<not> blob_fault ?w1 k" using assms(2) by (simp add: w1)
  have rd: "clock ?w1 (clock_reads ?w1) = clock w (Suc (clock_reads w))" by (simp add: w1)
  have a: "fst (is_in_cooldown s u ?w1) \<longleftrightarrow> clock w (Suc (clock_reads w)) < ?stamp + ?window"
    using is_in_cooldown_stored(1) [OF assms(1) stored _ _ _ assms(4)] nf rd by simp
  have b: "\<not> fst (is_in_cooldown s u ?w1) \<Longrightarrow>
      blobs (snd (is_in_cooldown s u ?w1)) (blob_name u) = None"
    using is_in_cooldown_stored(2) [OF assms(1) stored _ _ _ assms(4)] nf by simp
  have m: "clock w (Suc (clock_reads w)) < ?stamp + 60000000 \<Longrightarrow>
      clock w (Suc (clock_reads w)) < ?stamp + ?window"
    using one_minute_of_window [OF assms(3)] by linarith
  have c: "\<not> fst (is_in_cooldown s u w) \<and>
           blobs (snd (is_in_cooldown s u w)) (blob_name u) = None \<and>
           trace (snd (is_in_cooldown s u w)) = trace w @ [BlobDelete (blob_name u)]"
    if "blobs w (blob_name u) = Some t0" and "cooldown_end_exists s t0"
      and "t0 + ?window \<le> clock w (clock_reads w)"
    for t0
    using is_in_cooldown_stored [OF assms(1) that(1) _ _ _ that(2)] assms(2) that(3) by simp
  from stored a b c m is_in_cooldown_absent show ?thesis by auto
qed

lemma half_hour_fits:
  "cooldown_end_exists alerting (clock quiet_world (clock_reads quiet_world))"
  "cooldown_end_exists alerting (clock late_world (clock_reads late_world))"
  by (simp_all add: cooldown_end_exists_def alerting_def quiet_world_def late_world_def
        microseconds_of_minutes_def datetime_max_def)

theorem cooldown_round_trip_in_range_witness:
  "fst (is_in_cooldown alerting ''https://a.test/x''
          (set_cooldown alerting ''https://a.test/x'' quiet_world)) \<and>
   \<not> fst (is_in_cooldown alerting ''https://a.test/x''
            (set_cooldown alerting ''https://a.test/x'' late_world)) \<and>
   blobs (snd (is_in_cooldown alerting ''https://a.test/x''
                 (set_cooldown alerting ''https://a.test/x'' late_world)))
     (blob_name ''https://a.test/x'') = None \<and>
   \<not> fst (is_in_cooldown alerting ''https://a.test/x'' quiet_world)"
proof -
  have cfg: "blob_service_client alerting" by (simp add: alerting_def)
  have pos: "0 < ALERT_COOLDOWN_MINUTES alerting" by (simp add: alerting_def)
  have q: "\<forall>k. \<not> blob_fault quiet_world k" by (simp add: quiet_world_def)
  have l: "\<forall>k. \<not> blob_fault late_world k" by (simp add: late_world_def quiet_world_def)
  have none: "blobs quiet_world (blob_name ''https://a.test/x'') = None"
    by (simp add: quiet_world_def)
  from cooldown_round_trip_in_range [OF cfg q pos half_hour_fits(1), of "''https://a.test/x''"] none
  have "fst (is_in_cooldown alerting ''https://a.test/x''
          (set_cooldown alerting ''https://a.test/x'' quiet_world))"
    "\<not> fst (is_in_cooldown alerting ''https://a.test/x'' quiet_world)"
    by (simp_all add: quiet_world_def alerting_def microseconds_of_minutes_def)
  moreover
  from cooldown_round_trip_in_range [OF cfg l pos half_hour_fits(2), of "''https://a.test/x''"]
  have "\<not> fst (is_in_cooldown alerting ''https://a.test/x''
            (set_cooldown alerting ''https://a.test/x'' late_world)) \<and>
   blobs (snd (is_in_cooldown alerting ''https://a.test/x''
                 (set_cooldown alerting ''https://a.test/x'' late_world)))
     (blob_name ''https://a.test/x'') = None"
    by (simp add: late_world_def quiet_world_def alerting_def microseconds_of_minutes_def)
  ultimately show ?thesis by simp
qed

text \<open>
  Claim C5 as stated fails, with the store configured and no call failing. For a window
  of 0 minutes \<open>is_in_cooldown\<close> right after \<open>set_cooldown\<close> is false. For a window of
  5000000000 minutes, set on 2024-05-01, the end of the cooldown is after the last
  \<open>datetime\<close>: the addition raises, \<open>is_in_cooldown\<close> is false and the record stays.
\<close>

theorem cooldown_not_suppressed_after_suppress:
  "blob_service_client no_window \<and> blob_service_client endless_window \<and>
   blobs (set_cooldown no_window ''https://a.test/x'' quiet_world)
     ''cooldown_https_a.test_x'' = Some 1000 \<and>
   \<not> fst (is_in_cooldown no_window ''https://a.test/x''
            (set_cooldown no_window ''https://a.test/x'' quiet_world)) \<and>
   blobs (set_cooldown endless_window ''https://a.test/x'' present_world)
     ''cooldown_https_a.test_x'' = Some 63850154400000000 \<and>
   \<not> fst (is_in_cooldown endless_window ''https://a.test/x''
            (set_cooldown endless_window ''https://a.test/x'' present_world)) \<and>
   blobs (snd (is_in_cooldown endless_window ''https://a.test/x''
                 (set_cooldown endless_window ''https://a.test/x'' present_world)))
     ''cooldown_https_a.test_x'' = Some 63850154400000000"
  by (simp add: no_window_def endless_window_def alerting_def quiet_world_def present_world_def
        set_cooldown_def upload_blob_def blob_call_def now_def blob_name_example
        is_in_cooldown_def blob_exists_def get_blob_properties_def delete_blob_def
        timedelta_minutes_def datetime_add_def datetime_max_def microseconds_of_minutes_def)

subsection \<open>The order of the effects of a run\<close>
















section \<open>Properties of the check and retry engine\<close>

lemma attempts_done: "\<not> attempt < max_retries c \<Longrightarrow> attempts c t attempt result w = (Inr result, w)"
  by (simp add: attempts.simps)

lemma attempts_request_exception:
  assumes "attempt < max_retries c" and "get_result w (gets w) = RequestException msg"
  shows "attempts c t attempt result w =
     (let w1 = w\<lparr>gets := Suc (gets w),
                  mtrace := mtrace w @ [HttpGet (t_url t) (timeout_seconds c) (t_headers t)]\<rparr>;
          result' = result\<lparr>error := Some msg\<rparr>
      in if attempt < max_retries c - 1 then
           (case time_sleep (retry_delay_seconds c) w1 of
              (Some e, w2) \<Rightarrow> (Inl e, w2)
            | (None, w2) \<Rightarrow> attempts c t (attempt + 1) result' w2)
         else attempts c t (attempt + 1) result' w1)"
  using assms by (subst attempts.simps) (simp add: session_get_def Let_def)

text \<open>
  Claim C9. For \<open>max_retries \<le> 0\<close> the loop of \<open>check_url\<close> has no pass: no request is
  issued (the trace and the request counter are unchanged) and the result is the
  initial one, with status \<open>DOWN\<close> and \<open>None\<close> for \<open>error\<close>, \<open>status_code\<close> and
  \<open>response_time\<close>.
\<close>

theorem check_url_without_attempts:
  assumes "max_retries c \<le> 0"
  shows "check_url c t w =
           (Inr \<lparr>r_url = t_url t, r_name = t_name t, r_timestamp = utc w (utc_reads w),
                 r_status = ''DOWN'', response_time = None, status_code = None, error = None\<rparr>,
            w\<lparr>utc_reads := Suc (utc_reads w)\<rparr>) \<and>
         mtrace (snd (check_url c t w)) = mtrace w \<and> gets (snd (check_url c t w)) = gets w"
  using assms by (simp add: check_url_def utcnow_def attempts_done)

theorem check_url_without_attempts_witness:
  "r_status (projr (fst (check_url (three_tries\<lparr>max_retries := 0\<rparr>) api_target unreachable))) = ''DOWN''
   \<and> error (projr (fst (check_url (three_tries\<lparr>max_retries := 0\<rparr>) api_target unreachable))) = None
   \<and> mtrace (snd (check_url (three_tries\<lparr>max_retries := 0\<rparr>) api_target unreachable)) = []"
  using check_url_without_attempts [of "three_tries\<lparr>max_retries := 0\<rparr>" api_target unreachable]
  by (simp add: three_tries_def unreachable_def)

lemma failed_attempts_Suc:
  "failed_attempts c t (Suc (Suc j)) =
     [HttpGet (t_url t) (timeout_seconds c) (t_headers t), TimeSleep (retry_delay_seconds c)]
     @ failed_attempts c t (Suc j)"
  by (simp add: failed_attempts_def)

lemma filter_concat_replicate:
  "filter P (concat (replicate n xs)) = concat (replicate n (filter P xs))"
  by (induction n) auto

lemma failed_attempts_gets: "length (filter is_get (failed_attempts c t n)) = n"
  by (cases n) (simp_all add: failed_attempts_def filter_concat_replicate length_concat sum_list_replicate)

lemma sleeps_append: "sleeps (xs @ ys) = sleeps xs @ sleeps ys"
  by (induction xs rule: sleeps.induct) auto

lemma sleeps_rounds:
  "sleeps (concat (replicate n [HttpGet u x h, TimeSleep d])) = replicate n d"
  by (induction n) auto

lemma failed_attempts_sleeps:
  "sleeps (failed_attempts c t n) = replicate (n - 1) (retry_delay_seconds c)"
  by (simp add: failed_attempts_def sleeps_append sleeps_rounds)

lemma attempts_all_fail:
  "max_retries c = 1 \<or>
     0 \<le> retry_delay_seconds c \<and> sleep_overflow w (retry_delay_seconds c) = None \<Longrightarrow>
   0 \<le> a \<Longrightarrow> nat (max_retries c - a) = Suc j \<Longrightarrow>
   \<forall>k\<le>j. get_result w (gets w + k) = RequestException (msg k) \<Longrightarrow>
   attempts c t a res w =
     (Inr (res\<lparr>error := Some (msg j)\<rparr>),
      w\<lparr>gets := gets w + Suc j, mtrace := mtrace w @ failed_attempts c t (Suc j)\<rparr>)"
proof (induction j arbitrary: a res w msg)
  case 0
  then have a: "a < max_retries c" "\<not> a < max_retries c - 1" "\<not> a + 1 < max_retries c" by auto
  from "0.prems" have g: "get_result w (gets w) = RequestException (msg 0)" by simp
  show ?case
    by (simp add: attempts_request_exception [OF a(1) g] a attempts_done failed_attempts_def)
next
  case (Suc j)
  then have a: "a < max_retries c" "a < max_retries c - 1" by auto
  with Suc.prems(1,2) have d: "0 \<le> retry_delay_seconds c"
    "sleep_overflow w (retry_delay_seconds c) = None" by auto
  from Suc.prems have g: "get_result w (gets w) = RequestException (msg 0)" by force
  let ?w2 = "w\<lparr>gets := Suc (gets w),
     mtrace := mtrace w @ [HttpGet (t_url t) (timeout_seconds c) (t_headers t)] @
       [TimeSleep (retry_delay_seconds c)]\<rparr>"
  have step: "attempts c t a res w = attempts c t (a + 1) (res\<lparr>error := Some (msg 0)\<rparr>) ?w2"
    using d by (simp add: attempts_request_exception [OF a(1) g] a time_sleep_def Let_def)
  have n: "nat (max_retries c - (a + 1)) = Suc j" using Suc.prems(3) by simp
  have p: "0 \<le> a + 1" using Suc.prems(2) by simp
  have o: "max_retries c = 1 \<or>
     0 \<le> retry_delay_seconds c \<and> sleep_overflow ?w2 (retry_delay_seconds c) = None"
    using d by simp
  have f: "\<forall>k\<le>j. get_result ?w2 (gets ?w2 + k) = RequestException (msg (Suc k))"
    using Suc.prems(4) by auto
  note ih = Suc.IH [OF o p n f, of "res\<lparr>error := Some (msg 0)\<rparr>"]
  show ?case unfolding step ih by (simp add: failed_attempts_Suc)
qed

text \<open>
  Claim C3, as amended. For \<open>max_retries \<ge> 1\<close> and a delay that \<open>time.sleep\<close> accepts, one
  that is not negative and fits the time type of the platform (or for a single attempt,
  after which nothing sleeps), if each of the next \<open>max_retries\<close> requests raises a
  \<open>RequestException\<close>, then \<open>check_url\<close> returns a result: it has issued exactly
  \<open>max_retries\<close> requests, slept \<open>retry_delay_seconds\<close> after each of them but the last,
  \<open>(max_retries - 1) * retry_delay\<close> in total, and the result has status \<open>DOWN\<close> and the
  message of the last failure.
\<close>

theorem check_url_all_attempts_fail:
  assumes "1 \<le> max_retries c"
    and "max_retries c = 1 \<or>
         0 \<le> retry_delay_seconds c \<and> sleep_overflow w (retry_delay_seconds c) = None"
    and "\<forall>k<nat (max_retries c). get_result w (gets w + k) = RequestException (msg k)"
  shows "\<exists>result w'. check_url c t w = (Inr result, w') \<and>
      mtrace w' = mtrace w @ failed_attempts c t (nat (max_retries c)) \<and>
      gets w' = gets w + nat (max_retries c) \<and>
      length (filter is_get (failed_attempts c t (nat (max_retries c)))) = nat (max_retries c) \<and>
      sleeps (failed_attempts c t (nat (max_retries c))) =
        replicate (nat (max_retries c) - 1) (retry_delay_seconds c) \<and>
      sum_list (sleeps (failed_attempts c t (nat (max_retries c)))) =
        of_int (max_retries c - 1) * retry_delay_seconds c \<and>
      r_status result = ''DOWN'' \<and>
      error result = Some (msg (nat (max_retries c) - 1))"
proof -
  from assms(1) obtain j where j: "nat (max_retries c - 0) = Suc j"
    by (cases "nat (max_retries c)") auto
  let ?w0 = "w\<lparr>utc_reads := Suc (utc_reads w)\<rparr>"
  have f: "\<forall>k\<le>j. get_result ?w0 (gets ?w0 + k) = RequestException (msg k)"
    using assms(3) j by auto
  have o: "max_retries c = 1 \<or>
     0 \<le> retry_delay_seconds c \<and> sleep_overflow ?w0 (retry_delay_seconds c) = None"
    using assms(2) by simp
  have n: "nat (max_retries c) = Suc j" using j by simp
  have total: "sum_list (replicate j (retry_delay_seconds c)) =
      of_int (max_retries c - 1) * retry_delay_seconds c"
  proof -
    have "max_retries c - 1 = int j" using n by linarith
    then show ?thesis by (simp add: sum_list_replicate)
  qed
  show ?thesis
    using attempts_all_fail [OF o _ j f, of t]
    by (simp add: check_url_def utcnow_def n failed_attempts_gets failed_attempts_sleeps total)
qed

theorem check_url_all_attempts_fail_witness:
  "\<exists>result w'. check_url three_tries api_target unreachable = (Inr result, w') \<and>
      mtrace w' = [HttpGet ''https://a.test/x'' 10 [], TimeSleep 2,
                   HttpGet ''https://a.test/x'' 10 [], TimeSleep 2,
                   HttpGet ''https://a.test/x'' 10 []] \<and>
      sum_list (sleeps (failed_attempts three_tries api_target 3)) = 4 \<and>
      r_status result = ''DOWN'' \<and>
      error result = Some (''timeout '' @ string_of_nat 2)"
proof -
  have r: "1 \<le> max_retries three_tries"
    "max_retries three_tries = 1 \<or>
       0 \<le> retry_delay_seconds three_tries \<and>
       sleep_overflow unreachable (retry_delay_seconds three_tries) = None"
    by (simp_all add: three_tries_def unreachable_def nanoseconds_int64_def)
  have f: "\<forall>k<nat (max_retries three_tries).
      get_result unreachable (gets unreachable + k) =
        RequestException (''timeout '' @ string_of_nat k)"
    by (simp add: unreachable_def)
  have n: "nat (max_retries three_tries) = 3" by (simp add: three_tries_def)
  have ev: "failed_attempts three_tries api_target 3 =
      [HttpGet ''https://a.test/x'' 10 [], TimeSleep 2,
       HttpGet ''https://a.test/x'' 10 [], TimeSleep 2,
       HttpGet ''https://a.test/x'' 10 []]"
    by (simp add: failed_attempts_def three_tries_def api_target_def numeral_2_eq_2)
  from check_url_all_attempts_fail [OF r f, of api_target] show ?thesis
    unfolding n ev by (auto simp: unreachable_def three_tries_def)
qed

text \<open>
  Claim C3 as stated fails for delays that \<open>validate_config\<close> admits and \<open>time.sleep\<close>
  refuses. For a delay of \<open>-1\<close> it raises \<open>ValueError\<close>, for a delay of \<open>10000000000\<close>
  seconds \<open>OverflowError\<close>, after the first failed request: \<open>check_url\<close> raises with it,
  after one request instead of three and without a result.
\<close>

theorem check_url_negative_delay_raises:
  "1 \<le> max_retries negative_delay \<and> 1 \<le> max_retries huge_delay \<and>
   get_result unreachable 0 = RequestException (''timeout '' @ string_of_nat 0) \<and>
   fst (check_url negative_delay api_target unreachable) =
     Inl ''sleep length must be non-negative'' \<and>
   mtrace (snd (check_url negative_delay api_target unreachable)) =
     [HttpGet ''https://a.test/x'' 10 []] \<and>
   fst (check_url huge_delay api_target unreachable) =
     Inl ''timestamp too large to convert to C _PyTime_t'' \<and>
   mtrace (snd (check_url huge_delay api_target unreachable)) =
     [HttpGet ''https://a.test/x'' 10 []]"
  by (simp add: check_url_def utcnow_def attempts.simps session_get_def time_sleep_def
        negative_delay_def huge_delay_def three_tries_def unreachable_def api_target_def
        nanoseconds_int64_def)

subsection \<open>The cycle\<close>











section \<open>Properties of ConfigValidator\<close>

lemma all_hold_Inr: "all_hold (Inr b # cs) = (if b then all_hold cs else Inr False)"
  by (cases b) simp_all

lemma py_get_field: "py_get (JObj kvs) k JNull = Inr (field kvs k)"
  by (simp add: py_get_def field_def split: option.splits)

lemma numeric_is_number: "numeric v \<Longrightarrow> is_number v"
  by (cases v) (auto simp: numeric_def is_number_def)

lemma keys_checked_JObj:
  "all_hold (map (\<lambda>k. py_contains k (JObj kvs)) [''name'', ''url'', ''expected_status'']) =
     Inr (map_of kvs ''name'' \<noteq> None \<and> map_of kvs ''url'' \<noteq> None \<and>
          map_of kvs ''expected_status'' \<noteq> None)"
  by (auto simp: py_contains_def all_hold_Inr)

lemma validate_urls_step:
  "validate_urls P (t # ts) = Inr True \<longleftrightarrow> accepted_target P t \<and> validate_urls P ts = Inr True"
proof (cases t)
  case (JObj kvs)
  show ?thesis
    unfolding JObj validate_urls.simps keys_checked_JObj
    by (auto simp: accepted_target_def py_getitem_def split: option.splits bool.splits)
qed (auto simp: accepted_target_def py_contains_def py_getitem_def split: sum.splits bool.splits)

lemma validate_urls_True:
  "validate_urls P ts = Inr True \<longleftrightarrow> list_all (accepted_target P) ts"
  by (induction ts) (simp_all add: validate_urls_step del: validate_urls.simps(2))

lemma valid_target_accepted:
  assumes "valid_target P t"
  shows "accepted_target P t"
proof -
  from assms obtain kvs where t: "t = JObj kvs"
    by (cases t) (auto simp: valid_target_def)
  from assms t have k: "map_of kvs ''name'' \<noteq> None" "map_of kvs ''expected_status'' \<noteq> None"
    by (auto simp: valid_target_def)
  from assms t obtain u where u: "map_of kvs ''url'' = Some (JStr u)"
    by (auto simp: valid_target_def split: option.splits json.splits)
  from assms t u obtain nl where "P u = Inr (''https'', nl)" "nl \<noteq> []"
    by (auto simp: valid_target_def split: sum.splits)
  then show ?thesis using k by (auto simp: accepted_target_def validate_url_def t u)
qed

lemma missing_field_rejected: "missing_field t \<Longrightarrow> \<not> accepted_target P t"
  by (auto simp: missing_field_def accepted_target_def split: json.splits)

lemma not_https_rejected: "not_https P t \<Longrightarrow> \<not> accepted_target P t"
  by (auto simp: not_https_def accepted_target_def validate_url_def
      split: json.splits option.splits sum.splits prod.splits)

lemma is_int_field_present: "is_int (field kvs k) \<Longrightarrow> py_getitem (JObj kvs) k = Inr (field kvs k)"
  by (auto simp: field_def py_getitem_def is_int_def split: option.splits)

lemma validate_config_objects:
  assumes mon: "map_of kvs0 ''monitoring'' = Some (JObj m)"
    and secu: "map_of kvs0 ''security'' = Some (JObj sec)"
  shows "validate_config P (JObj kvs0) \<longleftrightarrow>
     (is_number (field m ''interval_minutes'') \<and> is_number (field m ''timeout_seconds'') \<and>
      is_int (field m ''max_retries'') \<and> is_number (field m ''retry_delay_seconds'')) \<and>
     (is_int (field sec ''max_urls'') \<and> is_list (field sec ''allowed_schemes'') \<and>
      is_number (field sec ''max_timeout_seconds'') \<and>
      is_number (field sec ''max_interval_minutes'')) \<and>
     (\<exists>us. configured_urls m = JList us \<and>
        py_int_gt (int (length us)) (field sec ''max_urls'') = Inr False \<and>
        list_all (accepted_target P) us)"
    (is "_ \<longleftrightarrow> ?M \<and> ?S \<and> ?U")
proof -
  have g1: "py_get (JObj kvs0) ''monitoring'' (JObj []) = Inr (JObj m)"
    and g2: "py_get (JObj kvs0) ''security'' (JObj []) = Inr (JObj sec)"
    using mon secu by (simp_all add: py_get_def)
  have g3: "py_get (JObj m) ''urls'' (JList []) = Inr (configured_urls m)"
    by (simp add: py_get_def configured_urls_def split: option.splits)
  have c1: "all_hold
             [isinstance is_number (py_get (JObj m) ''interval_minutes'' JNull),
              isinstance is_number (py_get (JObj m) ''timeout_seconds'' JNull),
              isinstance is_int (py_get (JObj m) ''max_retries'' JNull),
              isinstance is_number (py_get (JObj m) ''retry_delay_seconds'' JNull)] = Inr ?M"
    by (simp add: py_get_field isinstance_def all_hold_Inr)
  have c2: "all_hold
             [isinstance is_int (py_get (JObj sec) ''max_urls'' JNull),
              isinstance is_list (py_get (JObj sec) ''allowed_schemes'' JNull),
              isinstance is_number (py_get (JObj sec) ''max_timeout_seconds'' JNull),
              isinstance is_number (py_get (JObj sec) ''max_interval_minutes'' JNull)] = Inr ?S"
    by (simp add: py_get_field isinstance_def all_hold_Inr)
  show ?thesis
  proof (cases "?M \<and> ?S")
    case False
    then show ?thesis
      by (simp only: validate_config_def validate_config_try_def g1 g2 sum.case c1 c2)
         (auto simp: bool.case_eq_if)
  next
    case True
    then have gi: "py_getitem (JObj sec) ''max_urls'' = Inr (field sec ''max_urls'')"
      by (simp add: is_int_field_present)
    have "validate_config P (JObj kvs0) \<longleftrightarrow>
        (case configured_urls m of
           JList us \<Rightarrow>
             (case py_int_gt (int (length us)) (field sec ''max_urls'') of
                Inl e \<Rightarrow> False
              | Inr True \<Rightarrow> False
              | Inr False \<Rightarrow> list_all (accepted_target P) us)
         | _ \<Rightarrow> False)"
      using True
      by (simp only: validate_config_def validate_config_try_def g1 g2 sum.case c1 c2 g3 gi)
         (simp add: validate_urls_True [symmetric] bool.case_eq_if split: json.splits sum.splits)
    also have "\<dots> \<longleftrightarrow> ?U"
      by (cases "configured_urls m") (auto simp: bool.case_eq_if split: sum.splits)
    finally show ?thesis using True by blast
  qed
qed

lemma validate_config_shape:
  assumes "validate_config P c"
  shows "\<exists>kvs0 m sec. c = JObj kvs0 \<and> map_of kvs0 ''monitoring'' = Some (JObj m) \<and>
           map_of kvs0 ''security'' = Some (JObj sec)"
proof -
  from assms obtain kvs0 where c: "c = JObj kvs0"
    by (cases c) (auto simp: validate_config_def validate_config_try_def py_get_def)
  define mv where "mv = (case map_of kvs0 ''monitoring'' of None \<Rightarrow> JObj [] | Some x \<Rightarrow> x)"
  define sv where "sv = (case map_of kvs0 ''security'' of None \<Rightarrow> JObj [] | Some x \<Rightarrow> x)"
  have g: "py_get c ''monitoring'' (JObj []) = Inr mv"
    "py_get c ''security'' (JObj []) = Inr sv"
    by (simp_all add: c py_get_def mv_def sv_def split: option.splits)
  have body: "validate_config P c \<longleftrightarrow>
      (case (case all_hold
             [isinstance is_number (py_get mv ''interval_minutes'' JNull),
              isinstance is_number (py_get mv ''timeout_seconds'' JNull),
              isinstance is_int (py_get mv ''max_retries'' JNull),
              isinstance is_number (py_get mv ''retry_delay_seconds'' JNull)] of
        Inl e \<Rightarrow> Inl e
      | Inr False \<Rightarrow> Inr False
      | Inr True \<Rightarrow>
     (case all_hold
             [isinstance is_int (py_get sv ''max_urls'' JNull),
              isinstance is_list (py_get sv ''allowed_schemes'' JNull),
              isinstance is_number (py_get sv ''max_timeout_seconds'' JNull),
              isinstance is_number (py_get sv ''max_interval_minutes'' JNull)] of
        Inl e \<Rightarrow> Inl e
      | Inr False \<Rightarrow> Inr False
      | Inr True \<Rightarrow>
     (case py_get mv ''urls'' (JList []) of
        Inl e \<Rightarrow> Inl e
      | Inr url_list \<Rightarrow>
          (case url_list of
             JList us \<Rightarrow>
               (case py_getitem sv ''max_urls'' of
                  Inl e \<Rightarrow> Inl e
                | Inr max_urls \<Rightarrow>
                    (case py_int_gt (int (length us)) max_urls of
                       Inl e \<Rightarrow> Inl e
                     | Inr True \<Rightarrow> Inr False
                     | Inr False \<Rightarrow> validate_urls P us))
           | _ \<Rightarrow> Inr False)))) of Inl e \<Rightarrow> False | Inr b \<Rightarrow> b)"
    by (simp only: validate_config_def validate_config_try_def g sum.case)
  have mobj: "\<exists>m. mv = JObj m"
  proof (rule ccontr)
    assume "\<not> (\<exists>m. mv = JObj m)"
    then have "py_get mv ''interval_minutes'' JNull = Inl AttributeError"
      by (cases mv) (auto simp: py_get_def)
    with assms body show False by (simp add: isinstance_def)
  qed
  then obtain m where m: "mv = JObj m" by blast
  have M: "is_number (field m ''interval_minutes'')"
    using assms body by (auto simp: m py_get_field isinstance_def all_hold_Inr split: if_splits)
  have sobj: "\<exists>sec. sv = JObj sec"
  proof (rule ccontr)
    assume "\<not> (\<exists>sec. sv = JObj sec)"
    then have "py_get sv ''max_urls'' JNull = Inl AttributeError"
      by (cases sv) (auto simp: py_get_def)
    with assms body show False
      by (auto simp: m py_get_field isinstance_def all_hold_Inr bool.case_eq_if split: if_splits)
  qed
  then obtain sec where sec: "sv = JObj sec" by blast
  have S: "is_int (field sec ''max_urls'')"
    using assms body
    by (auto simp: m sec py_get_field isinstance_def all_hold_Inr bool.case_eq_if split: if_splits)
  have "map_of kvs0 ''monitoring'' = Some (JObj m)"
    using m M by (auto simp: mv_def field_def is_number_def split: option.splits)
  moreover have "map_of kvs0 ''security'' = Some (JObj sec)"
    using sec S by (auto simp: sv_def field_def is_int_def split: option.splits)
  ultimately show ?thesis using c by blast
qed

lemma configured_urls_targets:
  assumes "map_of kvs0 ''monitoring'' = Some (JObj m)" and "configured_urls m = JList us"
  shows "targets_of (JObj kvs0) = us"
  using assms by (auto simp: targets_of_def configured_urls_def split: option.splits)

lemma accepted_config_facts:
  assumes "validate_config P c"
  shows "(\<exists>v. setting ''monitoring'' ''max_retries'' c = Some v \<and> is_int v) \<and>
         (\<exists>mu. setting ''security'' ''max_urls'' c = Some mu \<and> is_int mu \<and>
               py_int_gt (int (length (targets_of c))) mu = Inr False) \<and>
         list_all (accepted_target P) (targets_of c)"
proof -
  from validate_config_shape [OF assms] obtain kvs0 m sec where
    c: "c = JObj kvs0" and mon: "map_of kvs0 ''monitoring'' = Some (JObj m)"
    and secu: "map_of kvs0 ''security'' = Some (JObj sec)" by blast
  from assms validate_config_objects [OF mon secu, of P] obtain us where
    r: "is_int (field m ''max_retries'')" and mu: "is_int (field sec ''max_urls'')"
    and us: "configured_urls m = JList us"
    "py_int_gt (int (length us)) (field sec ''max_urls'') = Inr False"
    "list_all (accepted_target P) us"
    by (auto simp: c)
  have t: "targets_of c = us" using configured_urls_targets [OF mon us(1)] by (simp add: c)
  have "setting ''monitoring'' ''max_retries'' c = Some (field m ''max_retries'')"
    using r mon by (auto simp: setting_def c field_def is_int_def split: option.splits)
  moreover have "setting ''security'' ''max_urls'' c = Some (field sec ''max_urls'')"
    using mu secu by (auto simp: setting_def c field_def is_int_def split: option.splits)
  ultimately show ?thesis using r mu us t by simp
qed

lemma valid_config_accepted:
  assumes "valid_config P c"
  shows "validate_config P c"
proof -
  from assms obtain kvs0 where c: "c = JObj kvs0"
    by (cases c) (auto simp: valid_config_def)
  have vc: "valid_config P (JObj kvs0)" using assms c by simp
  obtain mv where mv: "map_of kvs0 ''monitoring'' = Some mv"
    using vc by (cases "map_of kvs0 ''monitoring''") (simp_all add: valid_config_def)
  obtain m where m: "mv = JObj m"
    using vc mv by (cases mv) (simp_all add: valid_config_def)
  obtain sv where sv: "map_of kvs0 ''security'' = Some sv"
    using vc mv m by (cases "map_of kvs0 ''security''") (simp_all add: valid_config_def)
  obtain sec where sec: "sv = JObj sec"
    using vc mv m sv by (cases sv) (simp_all add: valid_config_def)
  have mon: "map_of kvs0 ''monitoring'' = Some (JObj m)"
    and secu: "map_of kvs0 ''security'' = Some (JObj sec)"
    using mv m sv sec by simp_all
  from vc have v: "numeric (field m ''interval_minutes'')"
    "numeric (field m ''timeout_seconds'')" "numeric (field m ''retry_delay_seconds'')"
    "case field m ''max_retries'' of JInt n \<Rightarrow> 0 \<le> n | _ \<Rightarrow> False"
    "case field sec ''allowed_schemes'' of JList xs \<Rightarrow> xs \<noteq> [] | _ \<Rightarrow> False"
    "numeric (field sec ''max_timeout_seconds'')" "numeric (field sec ''max_interval_minutes'')"
    "case (field sec ''max_urls'', field m ''urls'') of
       (JInt k, JList ts) \<Rightarrow> int (length ts) \<le> k \<and> list_all (valid_target P) ts
     | _ \<Rightarrow> False"
    by (simp_all add: valid_config_def mon secu)
  obtain k where k: "field sec ''max_urls'' = JInt k"
    using v(8) by (cases "field sec ''max_urls''") simp_all
  obtain ts where ts1: "field m ''urls'' = JList ts"
    using v(8) k by (cases "field m ''urls''") simp_all
  have ts: "field m ''urls'' = JList ts" "int (length ts) \<le> k" "list_all (valid_target P) ts"
    using v(8) k ts1 by simp_all
  from ts(1) have ul: "configured_urls m = JList ts"
    by (auto simp: field_def configured_urls_def split: option.splits)
  have acc: "list_all (accepted_target P) ts"
    using ts(3) by (auto simp: list_all_iff valid_target_accepted)
  have "is_int (field m ''max_retries'')"
    using v(4) by (cases "field m ''max_retries''") (simp_all add: is_int_def)
  moreover have "is_list (field sec ''allowed_schemes'')"
    using v(5) by (cases "field sec ''allowed_schemes''") (simp_all add: is_list_def)
  moreover have "py_int_gt (int (length ts)) (field sec ''max_urls'') = Inr False"
    using ts(2) by (simp add: k py_int_gt_def)
  ultimately show ?thesis
    using v(1,2,3,6,7) ul acc
    by (simp add: c validate_config_objects [OF mon secu] numeric_is_number k is_int_def)
qed

text \<open>
  Claim C4. \<open>validate_config\<close> is true for every configuration that is valid in the words
  of the specification. It is false for every configuration with a target whose url
  parses with a scheme other than \<open>https\<close>, with a target that lacks \<open>name\<close>, \<open>url\<close> or
  \<open>expected_status\<close>, or with more targets than \<open>max_urls\<close>. When the body of the \<open>try\<close>
  block raises, the result is false: \<open>validate_config\<close> returns a boolean in every case.
\<close>

theorem validate_config_accepts_valid_rejects_invalid:
  "(valid_config P c \<longrightarrow> validate_config P c) \<and>
   ((\<exists>t\<in>set (targets_of c). not_https P t) \<longrightarrow> \<not> validate_config P c) \<and>
   ((\<exists>t\<in>set (targets_of c). missing_field t) \<longrightarrow> \<not> validate_config P c) \<and>
   ((\<exists>k. setting ''security'' ''max_urls'' c = Some (JInt k) \<and> k < int (length (targets_of c)))
      \<longrightarrow> \<not> validate_config P c) \<and>
   ((\<exists>e. validate_config_try P c = Inl e) \<longrightarrow> \<not> validate_config P c)"
proof (intro conjI impI)
  assume "valid_config P c"
  then show "validate_config P c" by (rule valid_config_accepted)
next
  assume "\<exists>t\<in>set (targets_of c). not_https P t"
  then obtain t where t: "t \<in> set (targets_of c)" "\<not> accepted_target P t"
    by (blast dest: not_https_rejected)
  show "\<not> validate_config P c"
  proof
    assume "validate_config P c"
    from accepted_config_facts [OF this] t show False by (auto simp: list_all_iff)
  qed
next
  assume "\<exists>t\<in>set (targets_of c). missing_field t"
  then obtain t where t: "t \<in> set (targets_of c)" "\<not> accepted_target P t"
    by (blast dest: missing_field_rejected)
  show "\<not> validate_config P c"
  proof
    assume "validate_config P c"
    from accepted_config_facts [OF this] t show False by (auto simp: list_all_iff)
  qed
next
  assume "\<exists>k. setting ''security'' ''max_urls'' c = Some (JInt k) \<and> k < int (length (targets_of c))"
  then obtain k where k: "setting ''security'' ''max_urls'' c = Some (JInt k)"
    "k < int (length (targets_of c))" by blast
  show "\<not> validate_config P c"
  proof
    assume "validate_config P c"
    from accepted_config_facts [OF this] k show False by (auto simp: py_int_gt_def)
  qed
next
  assume "\<exists>e. validate_config_try P c = Inl e"
  then show "\<not> validate_config P c" by (auto simp: validate_config_def)
qed

lemma good_config_valid: "valid_config example_urlparse good_config"
  by code_simp

lemma http_config_target: "\<exists>t\<in>set (targets_of http_config). not_https example_urlparse t"
  by code_simp

lemma nameless_config_target: "\<exists>t\<in>set (targets_of nameless_config). missing_field t"
  by code_simp

lemma crowded_config_count:
  "setting ''security'' ''max_urls'' crowded_config = Some (JInt 2) \<and>
   2 < int (length (targets_of crowded_config))"
  by code_simp

theorem validate_config_accepts_valid_rejects_invalid_witness:
  "validate_config example_urlparse good_config \<and>
   \<not> validate_config example_urlparse http_config \<and>
   \<not> validate_config example_urlparse nameless_config \<and>
   \<not> validate_config example_urlparse crowded_config \<and>
   validate_config_try example_urlparse (JList []) = Inl AttributeError \<and>
   \<not> validate_config example_urlparse (JList [])"
proof -
  have raised: "validate_config_try example_urlparse (JList []) = Inl AttributeError"
    by (simp add: validate_config_try_def py_get_def)
  from validate_config_accepts_valid_rejects_invalid [of example_urlparse good_config]
    good_config_valid
  have "validate_config example_urlparse good_config" by blast
  moreover from validate_config_accepts_valid_rejects_invalid [of example_urlparse http_config]
    http_config_target
  have "\<not> validate_config example_urlparse http_config" by blast
  moreover from validate_config_accepts_valid_rejects_invalid [of example_urlparse nameless_config]
    nameless_config_target
  have "\<not> validate_config example_urlparse nameless_config" by blast
  moreover from validate_config_accepts_valid_rejects_invalid [of example_urlparse crowded_config]
    crowded_config_count
  have "\<not> validate_config example_urlparse crowded_config" by blast
  moreover from validate_config_accepts_valid_rejects_invalid [of example_urlparse "JList []"]
    raised
  have "\<not> validate_config example_urlparse (JList [])" by blast
  ultimately show ?thesis using raised by simp
qed





end
